theory Spec2Isabelle
  imports Main
begin

section \<open>Python strings\<close>

text \<open>
  A Python \<^verbatim>\<open>str\<close> is modelled as a list of code points, each a \<^typ>\<open>char\<close>; the model
  therefore covers the code points U+0000 to U+00FF. The predicates below are the
  restrictions of \<^verbatim>\<open>str.isspace\<close>, of the \<^verbatim>\<open>re\<close> classes and of \<^verbatim>\<open>str.lower\<close> to that
  range.
\<close>

abbreviation nl :: string where
  "nl \<equiv> [CHR 0x0A]"

definition is_space :: "char \<Rightarrow> bool" where
  "is_space c = ((of_char c :: nat) \<in> set [9, 10, 11, 12, 13, 28, 29, 30, 31, 32, 133, 160])"

definition rstrip :: "string \<Rightarrow> string" where
  "rstrip s = rev (dropWhile is_space (rev s))"

definition startswith :: "string \<Rightarrow> string \<Rightarrow> bool" where
  "startswith s p = (take (length p) s = p)"

section \<open>Exceptions and outcomes\<close>

datatype exn = OSError | AttributeError | ValueError | TypeError | IndexError

datatype 'a outcome = Ret 'a | Raise exn

section \<open>The subprocess seen from the client\<close>

text \<open>
  \<^verbatim>\<open>process.stdout.readline()\<close> either returns a line (the empty string at end of
  stream) or raises \<^verbatim>\<open>OSError\<close>. The pending output of the subprocess is the list of
  the results of the successive calls; when the list is exhausted the call blocks and
  never returns.

  Every write or flush on \<^verbatim>\<open>process.stdin\<close> either succeeds or raises \<^verbatim>\<open>OSError\<close>:
  \<open>wr_raises p k\<close> tells whether the \<open>k\<close>-th operation on the stream raises.
\<close>

datatype read_ev = Line string | ReadOSError

record proc =
  stdout :: "read_ev list"
  wr_raises :: "nat \<Rightarrow> bool"
  wr_count :: nat
  stdin_log :: string

record prochelper =
  process :: "proc option"
  process_err :: "string option"

datatype lock = Lock

text \<open>
  \<^verbatim>\<open>GHCModClient\<close>: the three attributes set by \<^verbatim>\<open>__init__\<close>. The drain is a thread;
  \<open>stderr_drain c = Some alive\<close> records the answer \<^verbatim>\<open>is_alive()\<close> would give.
\<close>

record client =
  ghcmod :: "prochelper option"
  action_lock :: "lock option"
  stderr_drain :: "bool option"

definition GHCMOD_OUTPUT_MARKER :: string where
  "GHCMOD_OUTPUT_MARKER = ''O: ''"

definition GHCMOD_ERROR_MARKER :: string where
  "GHCMOD_ERROR_MARKER = ''X: ''"

definition set_process :: "client \<Rightarrow> prochelper \<Rightarrow> proc \<Rightarrow> client" where
  "set_process c ph p = c\<lparr>ghcmod := Some (ph\<lparr>process := Some p\<rparr>)\<rparr>"

text \<open>
  One operation on \<^verbatim>\<open>self.ghcmod.process.stdin\<close> (a \<^verbatim>\<open>print\<close>, a \<^verbatim>\<open>write\<close> or a
  \<^verbatim>\<open>flush\<close>). Reading the attribute of \<^verbatim>\<open>None\<close> raises \<^verbatim>\<open>AttributeError\<close>.
\<close>

definition stdin_op :: "string \<Rightarrow> client \<Rightarrow> unit outcome \<times> client" where
  "stdin_op text c =
     (case ghcmod c of
        None \<Rightarrow> (Raise AttributeError, c)
      | Some ph \<Rightarrow>
          (case process ph of
             None \<Rightarrow> (Raise AttributeError, c)
           | Some p \<Rightarrow>
               (if wr_raises p (wr_count p)
                then (Raise OSError, set_process c ph (p\<lparr>wr_count := Suc (wr_count p)\<rparr>))
                else (Ret (), set_process c ph
                        (p\<lparr>wr_count := Suc (wr_count p), stdin_log := stdin_log p @ text\<rparr>)))))"

definition dead :: client where
  "dead = \<lparr>ghcmod = None, action_lock = None, stderr_drain = None\<rparr>"

text \<open>
  \<^verbatim>\<open>GHCModClient.shutdown\<close>. The blank line is written inside
  \<^verbatim>\<open>try ... except OSError: pass\<close>; any other exception leaves the method before the
  attributes are cleared. Stopping and joining the drain leaves nothing to observe,
  since the attribute is cleared next.
\<close>

definition shutdown :: "client \<Rightarrow> unit outcome \<times> client" where
  "shutdown c =
     (case ghcmod c of
        None \<Rightarrow> (Ret (), dead)
      | Some ph \<Rightarrow>
          (case stdin_op nl c of
             (Raise OSError, c') \<Rightarrow> (Ret (), dead)
           | (Raise e, c') \<Rightarrow> (Raise e, c')
           | (Ret u, c') \<Rightarrow> (Ret (), dead)))"

text \<open>
  The \<^verbatim>\<open>while not got_reply\<close> loop of \<^verbatim>\<open>read_response\<close>. The result is \<open>None\<close> when a
  read blocks for ever; otherwise it tells whether the loop ended normally (\<open>True\<close>) or
  by \<^verbatim>\<open>OSError\<close> (\<open>False\<close>), the output still pending, and the two accumulated lists.
  The two \<^verbatim>\<open>sys.stdout.write\<close> calls only log.
\<close>

fun read_loop ::
  "read_ev list \<Rightarrow> string list \<Rightarrow> string list \<Rightarrow>
     (bool \<times> read_ev list \<times> string list \<times> string list) option" where
  "read_loop [] resp_stdout resp_stderr = None"
| "read_loop (ReadOSError # evs) resp_stdout resp_stderr =
     Some (False, evs, resp_stdout, resp_stderr)"
| "read_loop (Line resp # evs) resp_stdout resp_stderr =
     (if resp = [] then Some (True, evs, resp_stdout, resp_stderr)
      else
        (let prefix = take 3 resp; resp' = drop 3 (rstrip resp) in
         if prefix = GHCMOD_OUTPUT_MARKER then
           (if resp' = ''OK'' then Some (True, evs, resp_stdout, resp_stderr)
            else read_loop evs (resp_stdout @ [rstrip resp']) resp_stderr)
         else if prefix = GHCMOD_ERROR_MARKER then
           read_loop evs resp_stdout (resp_stderr @ [rstrip resp'])
         else if prefix = ''NG '' then Some (True, evs, resp_stdout, resp_stderr)
         else Some (True, evs, resp_stdout, resp_stderr)))"

type_synonym reply = "string list \<times> string list"

definition read_response :: "client \<Rightarrow> (reply outcome \<times> client) option" where
  "read_response c =
     (case ghcmod c of
        None \<Rightarrow> Some (Raise AttributeError, c)
      | Some ph \<Rightarrow>
          (case process ph of
             None \<Rightarrow> Some (Raise AttributeError, c)
           | Some p \<Rightarrow>
               (case read_loop (stdout p) [] [] of
                  None \<Rightarrow> None
                | Some (ok, evs, resp_stdout, resp_stderr) \<Rightarrow>
                    (let c' = set_process c ph (p\<lparr>stdout := evs\<rparr>) in
                     if ok then Some (Ret (resp_stdout, resp_stderr), c')
                     else
                       (case shutdown c' of
                          (Raise e, c'') \<Rightarrow> Some (Raise e, c'')
                        | (Ret u, c'') \<Rightarrow> Some (Ret (resp_stdout, resp_stderr), c''))))))"

text \<open>
  The handler \<^verbatim>\<open>except OSError: self.shutdown(); return ([], [])\<close> shared by
  \<^verbatim>\<open>command_backend\<close>, \<^verbatim>\<open>map_file\<close> and \<^verbatim>\<open>unmap_file\<close>.
\<close>

definition on_oserror :: "client \<Rightarrow> (reply outcome \<times> client) option" where
  "on_oserror c =
     (case shutdown c of
        (Raise e, c') \<Rightarrow> Some (Raise e, c')
      | (Ret u, c') \<Rightarrow> Some (Ret ([], []), c'))"

text \<open>
  A sequence of operations on stdin followed by \<^verbatim>\<open>return self.read_response()\<close>, inside
  \<^verbatim>\<open>try\<close>: the first exception ends the sequence.
\<close>

fun send_then_read :: "string list \<Rightarrow> client \<Rightarrow> (reply outcome \<times> client) option" where
  "send_then_read [] c = read_response c"
| "send_then_read (text # texts) c =
     (case stdin_op text c of
        (Raise e, c') \<Rightarrow> Some (Raise e, c')
      | (Ret u, c') \<Rightarrow> send_then_read texts c')"

text \<open>
  \<^verbatim>\<open>with self.action_lock:\<close> raises when the attribute is \<^verbatim>\<open>None\<close> (\<^verbatim>\<open>AttributeError\<close> on
  \<^verbatim>\<open>__enter__\<close>; \<^verbatim>\<open>TypeError\<close> from Python 3.11 on), before the \<^verbatim>\<open>try\<close> is entered. The
  model has one thread, so that a lock that is present is free.
\<close>

definition locked_try :: "string list \<Rightarrow> client \<Rightarrow> (reply outcome \<times> client) option" where
  "locked_try texts c =
     (case action_lock c of
        None \<Rightarrow> Some (Raise AttributeError, c)
      | Some l \<Rightarrow>
          (case send_then_read texts c of
             None \<Rightarrow> None
           | Some (Raise OSError, c') \<Rightarrow> on_oserror c'
           | Some r \<Rightarrow> Some r))"

definition command_backend :: "string \<Rightarrow> client \<Rightarrow> (reply outcome \<times> client) option" where
  "command_backend cmd c = locked_try [cmd @ nl] c"

definition map_file :: "string \<Rightarrow> string \<Rightarrow> client \<Rightarrow> (reply outcome \<times> client) option" where
  "map_file file contents c =
     locked_try [''map-file '' @ file @ nl, contents, nl @ [CHR 0x04] @ nl, ''''] c"

definition unmap_file :: "string \<Rightarrow> client \<Rightarrow> (reply outcome \<times> client) option" where
  "unmap_file file c = locked_try [''unmap-file '' @ file @ nl] c"

section \<open>Starting a session\<close>

text \<open>
  What \<^verbatim>\<open>Which.which\<close> and \<^verbatim>\<open>subprocess.Popen\<close> do when \<^verbatim>\<open>ProcHelper.__init__\<close> runs:
  the executable is not on the search path, \<^verbatim>\<open>Popen\<close> raises \<^verbatim>\<open>OSError\<close> (the flag tells
  whether its \<^verbatim>\<open>errno\<close> is \<^verbatim>\<open>EPIPE\<close>), or the process starts.
\<close>

datatype spawn = NotFound | PopenOSError bool | Started proc

text \<open>
  \<^verbatim>\<open>ProcHelper.__init__\<close>. When the executable is not found nothing is raised: the
  message is kept in \<^verbatim>\<open>process_err\<close>. When \<^verbatim>\<open>Popen\<close> raises, \<^verbatim>\<open>self.process\<close> is still
  \<^verbatim>\<open>None\<close>: with \<^verbatim>\<open>EPIPE\<close> the handler calls \<^verbatim>\<open>self.process.communicate()\<close>, which raises
  \<^verbatim>\<open>AttributeError\<close>; otherwise it raises the \<^verbatim>\<open>OSError\<close> again.
\<close>

definition prochelper_init :: "spawn \<Rightarrow> prochelper outcome" where
  "prochelper_init sp =
     (case sp of
        NotFound \<Rightarrow>
          Ret \<lparr>process = None,
               process_err = Some ''SublimeHaskell.ProcHelper: ghc-mod was not found on PATH!''\<rparr>
      | PopenOSError epipe \<Rightarrow> (if epipe then Raise AttributeError else Raise OSError)
      | Started p \<Rightarrow> Ret \<lparr>process = Some p, process_err = None\<rparr>)"

text \<open>
  \<^verbatim>\<open>GHCModClient.__init__\<close>, given what starting its command does: the lock and the drain
  are created only when there is a process.
\<close>

definition client_init :: "spawn \<Rightarrow> client outcome" where
  "client_init sp =
     (case prochelper_init sp of
        Raise e \<Rightarrow> Raise e
      | Ret ph \<Rightarrow>
          (case process ph of
             None \<Rightarrow> Ret \<lparr>ghcmod = Some ph, action_lock = None, stderr_drain = None\<rparr>
           | Some p \<Rightarrow> Ret \<lparr>ghcmod = Some ph, action_lock = Some Lock, stderr_drain = Some True\<rparr>))"

text \<open>
  A process whose writes all succeed, with the given output pending, and the client
  that \<^verbatim>\<open>__init__\<close> builds around a process that has started.
\<close>

definition quiet :: "read_ev list \<Rightarrow> proc" where
  "quiet evs = \<lparr>stdout = evs, wr_raises = (\<lambda>k. False), wr_count = 0, stdin_log = []\<rparr>"

definition running :: "proc \<Rightarrow> client" where
  "running p = \<lparr>ghcmod = Some \<lparr>process = Some p, process_err = None\<rparr>,
                 action_lock = Some Lock, stderr_drain = Some True\<rparr>"

section \<open>Character classes and case\<close>

definition is_digit :: "char \<Rightarrow> bool" where
  "is_digit c = (48 \<le> (of_char c :: nat) \<and> (of_char c :: nat) \<le> 57)"

definition is_word :: "char \<Rightarrow> bool" where
  "is_word c =
     (let n = (of_char c :: nat) in
      (48 \<le> n \<and> n \<le> 57) \<or> (65 \<le> n \<and> n \<le> 90) \<or> n = 95 \<or> (97 \<le> n \<and> n \<le> 122) \<or>
      n \<in> set [170, 178, 179, 181, 185, 186, 188, 189, 190] \<or>
      (192 \<le> n \<and> n \<le> 214) \<or> (216 \<le> n \<and> n \<le> 246) \<or> 248 \<le> n)"

definition lower_char :: "char \<Rightarrow> char" where
  "lower_char c =
     (let n = (of_char c :: nat) in
      if (65 \<le> n \<and> n \<le> 90) \<or> (192 \<le> n \<and> n \<le> 222 \<and> n \<noteq> 215) then char_of (n + 32) else c)"

definition lower :: "string \<Rightarrow> string" where
  "lower s = map lower_char s"

section \<open>Regular expressions\<close>

text \<open>
  The fragment of Python's \<^verbatim>\<open>re\<close> syntax that the patterns of the backend use, under
  \<^verbatim>\<open>re.MULTILINE\<close>: literals, character sets, the classes \<^verbatim>\<open>\s\<close>, \<^verbatim>\<open>\S\<close>, \<^verbatim>\<open>\d\<close>, \<^verbatim>\<open>\w\<close> and \<^verbatim>\<open>.\<close>,
  the anchors \<^verbatim>\<open>^\<close> and \<^verbatim>\<open>$\<close>, sequence, alternation, the greedy star and named groups.
  Groups that are not named are never read and are written as their bodies.
\<close>

datatype re =
    Eps
  | Lit char
  | OneOf "char list"
  | Space
  | NonSpace
  | Digit
  | Word
  | Dot
  | Bol
  | Eol
  | Seq re re
  | Alt re re
  | Star re
  | Grp string re

definition Plus :: "re \<Rightarrow> re" where
  "Plus r = Seq r (Star r)"

definition Opt :: "re \<Rightarrow> re" where
  "Opt r = Alt r Eps"

definition lits :: "string \<Rightarrow> re" where
  "lits s = foldr (\<lambda>c r. Seq (Lit c) r) s Eps"

definition seqs :: "re list \<Rightarrow> re" where
  "seqs rs = foldr Seq rs Eps"

text \<open>
  Backtracking as a list of successes: \<open>matches r s (i, g)\<close> lists, in the order in which
  the backtracking matcher tries them, the states (end position, groups) in which \<open>r\<close>
  can match \<open>s\<close> from position \<open>i\<close> with groups \<open>g\<close>. The match found by Python is the
  head of the list. A group is recorded when it closes, the newest first. An
  iteration of a star that consumes nothing is not repeated; the star may iterate at
  most \<open>length s - i\<close> times, since every iteration moves the position forward.
\<close>

type_synonym groups = "(string \<times> nat \<times> nat) list"
type_synonym mstate = "nat \<times> groups"

definition one_char :: "(char \<Rightarrow> bool) \<Rightarrow> string \<Rightarrow> mstate \<Rightarrow> mstate list" where
  "one_char P s x =
     (case drop (fst x) s of
        [] \<Rightarrow> []
      | c # cs \<Rightarrow> if P c then [(Suc (fst x), snd x)] else [])"

fun star_iter :: "(mstate \<Rightarrow> mstate list) \<Rightarrow> nat \<Rightarrow> mstate \<Rightarrow> mstate list" where
  "star_iter f 0 x = [x]"
| "star_iter f (Suc n) x =
     concat (map (\<lambda>y. if fst x < fst y then star_iter f n y else []) (f x)) @ [x]"

fun matches :: "re \<Rightarrow> string \<Rightarrow> mstate \<Rightarrow> mstate list" where
  "matches Eps s x = [x]"
| "matches (Lit c) s x = one_char (\<lambda>d. d = c) s x"
| "matches (OneOf cs) s x = one_char (\<lambda>d. d \<in> set cs) s x"
| "matches Space s x = one_char is_space s x"
| "matches NonSpace s x = one_char (\<lambda>d. \<not> is_space d) s x"
| "matches Digit s x = one_char is_digit s x"
| "matches Word s x = one_char is_word s x"
| "matches Dot s x = one_char (\<lambda>d. d \<noteq> CHR 0x0A) s x"
| "matches Bol s x =
     (if fst x = 0 \<or> (fst x \<le> length s \<and> s ! (fst x - 1) = CHR 0x0A) then [x] else [])"
| "matches Eol s x =
     (case drop (fst x) s of [] \<Rightarrow> [x] | c # cs \<Rightarrow> if c = CHR 0x0A then [x] else [])"
| "matches (Seq a b) s x = concat (map (\<lambda>y. matches b s y) (matches a s x))"
| "matches (Alt a b) s x = matches a s x @ matches b s x"
| "matches (Star a) s x = star_iter (\<lambda>y. matches a s y) (length s - fst x) x"
| "matches (Grp n a) s x =
     map (\<lambda>y. (fst y, (n, fst x, fst y) # snd y)) (matches a s x)"

record match =
  m_string :: string
  m_start :: nat
  m_end :: nat
  m_groups :: groups

definition match_at :: "re \<Rightarrow> string \<Rightarrow> nat \<Rightarrow> match option" where
  "match_at r s i =
     (case matches r s (i, []) of
        [] \<Rightarrow> None
      | y # ys \<Rightarrow> Some \<lparr>m_string = s, m_start = i, m_end = fst y, m_groups = snd y\<rparr>)"

text \<open>
  \<^verbatim>\<open>finditer\<close>: the leftmost match from the current position, then the search resumes
  where the match ended (one character further after an empty match). There are at
  most \<open>length s + 1\<close> matches, which bounds the recursion.
\<close>

fun search :: "re \<Rightarrow> string \<Rightarrow> nat \<Rightarrow> nat \<Rightarrow> match option" where
  "search r s i 0 = None"
| "search r s i (Suc n) =
     (case match_at r s i of Some m \<Rightarrow> Some m | None \<Rightarrow> search r s (Suc i) n)"

fun finditer_from :: "nat \<Rightarrow> re \<Rightarrow> string \<Rightarrow> nat \<Rightarrow> match list" where
  "finditer_from 0 r s pos = []"
| "finditer_from (Suc n) r s pos =
     (case search r s pos (Suc (length s) - pos) of
        None \<Rightarrow> []
      | Some m \<Rightarrow>
          m # finditer_from n r s (if m_end m = m_start m then Suc (m_end m) else m_end m))"

definition finditer :: "re \<Rightarrow> string \<Rightarrow> match list" where
  "finditer r s = finditer_from (Suc (length s)) r s 0"

definition re_match :: "re \<Rightarrow> string \<Rightarrow> bool" where
  "re_match r s = (match_at r s 0 \<noteq> None)"

definition group :: "match \<Rightarrow> string \<Rightarrow> string option" where
  "group m name =
     (case map_of (m_groups m) name of
        None \<Rightarrow> None
      | Some (a, b) \<Rightarrow> Some (take (b - a) (drop a (m_string m))))"

section \<open>The two grammars\<close>

definition FILE_LINE_COL_REGEX :: re where
  "FILE_LINE_COL_REGEX =
     seqs [Star Space, Bol, Grp ''file'' (Star NonSpace), Lit (CHR '':''),
           Grp ''line'' (Plus Digit), Lit (CHR '':''), Grp ''col'' (Plus Digit), Lit (CHR '':''),
           Opt (seqs [Star Space,
                      Grp ''flag'' (Alt (Lit (CHR ''*'')) (Seq (OneOf ''Ww'') (lits ''arning:''))),
                      Plus Space])]"

definition GHC_CHECK_REGEX :: re where
  "GHC_CHECK_REGEX =
     Seq FILE_LINE_COL_REGEX
       (Grp ''details''
          (seqs [Star Dot, Eol,
                 Star (seqs [Lit (CHR 0x0A), Bol, Seq (Opt (Lit (CHR ''*''))) (Plus Space),
                             Star Dot, Eol])]))"

definition GHC_LINT_REGEX :: re where
  "GHC_LINT_REGEX =
     seqs [FILE_LINE_COL_REGEX,
           Grp ''msg'' (Seq (Star Dot) Eol),
           Grp ''details'' (Plus (Seq (Lit (CHR 0x0A)) (Seq (Star Dot) Eol)))]"


section \<open>os.path\<close>

text \<open>
  The translators are written against the three functions of \<^verbatim>\<open>os.path\<close> that they call.
  \<open>posixpath\<close> is the POSIX implementation of the standard library.
\<close>

record ospath =
  isabs :: "string \<Rightarrow> bool"
  join :: "string \<Rightarrow> string \<Rightarrow> string"
  normpath :: "string \<Rightarrow> string"

fun split_on :: "char \<Rightarrow> string \<Rightarrow> string list" where
  "split_on sep [] = [[]]"
| "split_on sep (c # cs) =
     (if c = sep then [] # split_on sep cs
      else (case split_on sep cs of [] \<Rightarrow> [[c]] | w # ws \<Rightarrow> (c # w) # ws))"

fun join_with :: "string \<Rightarrow> string list \<Rightarrow> string" where
  "join_with sep [] = []"
| "join_with sep [w] = w"
| "join_with sep (w # ws) = w @ sep @ join_with sep ws"

definition posix_isabs :: "string \<Rightarrow> bool" where
  "posix_isabs s = startswith s ''/''"

definition posix_join :: "string \<Rightarrow> string \<Rightarrow> string" where
  "posix_join a b =
     (if startswith b ''/'' then b
      else if a = [] \<or> last a = CHR ''/'' then a @ b
      else a @ ''/'' @ b)"

definition normpath_step :: "nat \<Rightarrow> string list \<Rightarrow> string \<Rightarrow> string list" where
  "normpath_step initial_slashes new_comps part =
     (if part = [] \<or> part = ''.'' then new_comps
      else if part \<noteq> ''..'' \<or> (initial_slashes = 0 \<and> new_comps = []) \<or>
              (new_comps \<noteq> [] \<and> last new_comps = ''..'')
        then new_comps @ [part]
      else if new_comps \<noteq> [] then butlast new_comps
      else new_comps)"

definition posix_normpath :: "string \<Rightarrow> string" where
  "posix_normpath path =
     (if path = [] then ''.''
      else
        (let initial_slashes =
               (if startswith path ''/''
                then (if startswith path ''//'' \<and> \<not> startswith path ''///'' then 2 else 1)
                else 0);
             comps = foldl (normpath_step initial_slashes) [] (split_on (CHR ''/'') path);
             path' = replicate initial_slashes (CHR ''/'') @ join_with ''/'' comps
         in if path' = [] then ''.'' else path'))"

definition posixpath :: ospath where
  "posixpath = \<lparr>isabs = posix_isabs, join = posix_join, normpath = posix_normpath\<rparr>"

section \<open>Diagnostics\<close>

record position =
  column :: nat
  line :: nat

record region =
  region_from :: position
  region_to :: position

record note_info =
  message :: "string option"
  suggestions :: "string list option"

record source =
  source_file :: string
  source_project :: "string option"

record diagnostic =
  level :: string
  diag_note :: note_info
  region :: region
  source :: source

text \<open>
  \<^verbatim>\<open>int\<close> on a string of decimal digits, which is what the groups \<^verbatim>\<open>line\<close> and \<^verbatim>\<open>col\<close> hold;
  on the empty string \<^verbatim>\<open>int\<close> raises \<^verbatim>\<open>ValueError\<close>, on \<^verbatim>\<open>None\<close> it raises \<^verbatim>\<open>TypeError\<close>.
\<close>

definition py_int :: "string \<Rightarrow> nat outcome" where
  "py_int s =
     (if s \<noteq> [] \<and> list_all is_digit s
      then Ret (foldl (\<lambda>n c. 10 * n + (of_char c - 48)) 0 s)
      else Raise ValueError)"

definition int_group :: "match \<Rightarrow> string \<Rightarrow> nat outcome" where
  "int_group m name = (case group m name of None \<Rightarrow> Raise TypeError | Some s \<Rightarrow> py_int s)"

text \<open>
  The three lines that \<^verbatim>\<open>translate_check\<close> and \<^verbatim>\<open>translate_lint\<close> share: the file name
  reported relative to the project directory is made absolute.
\<close>

definition reconstitute :: "ospath \<Rightarrow> string option \<Rightarrow> string option \<Rightarrow> string outcome" where
  "reconstitute P project_dir filename =
     (case filename of
        None \<Rightarrow> Raise TypeError
      | Some f \<Rightarrow>
          (if \<not> isabs P f then
             (case project_dir of
                None \<Rightarrow> Raise TypeError
              | Some d \<Rightarrow> Ret (normpath P (join P d f)))
           else Ret f))"

definition is_warning_flag :: "string option \<Rightarrow> bool" where
  "is_warning_flag flag =
     (case flag of None \<Rightarrow> False | Some f \<Rightarrow> startswith (lower f) ''warning'')"

definition translate_check :: "ospath \<Rightarrow> string option \<Rightarrow> match \<Rightarrow> diagnostic outcome" where
  "translate_check P project_dir errmsg =
     (case int_group errmsg ''line'' of
        Raise e \<Rightarrow> Raise e
      | Ret ln \<Rightarrow>
     (case int_group errmsg ''col'' of
        Raise e \<Rightarrow> Raise e
      | Ret col \<Rightarrow>
     (case reconstitute P project_dir (group errmsg ''file'') of
        Raise e \<Rightarrow> Raise e
      | Ret filename \<Rightarrow>
          (let flag = group errmsg ''flag'';
               level_type = (if flag = None \<or> \<not> is_warning_flag flag then ''error'' else ''warning'')
           in Ret \<lparr>level = level_type,
                    diag_note = \<lparr>message = group errmsg ''details'', suggestions = None\<rparr>,
                    region = \<lparr>region_from = \<lparr>column = 1, line = ln\<rparr>,
                              region_to = \<lparr>column = col, line = ln\<rparr>\<rparr>,
                    source = \<lparr>source_file = filename, source_project = None\<rparr>\<rparr>))))"

definition format_str :: "string option \<Rightarrow> string" where
  "format_str v = (case v of None \<Rightarrow> ''None'' | Some s \<Rightarrow> s)"

definition translate_lint :: "ospath \<Rightarrow> string option \<Rightarrow> match \<Rightarrow> diagnostic outcome" where
  "translate_lint P project_dir errmsg =
     (case int_group errmsg ''line'' of
        Raise e \<Rightarrow> Raise e
      | Ret ln \<Rightarrow>
     (case int_group errmsg ''col'' of
        Raise e \<Rightarrow> Raise e
      | Ret col \<Rightarrow>
     (case reconstitute P project_dir (group errmsg ''file'') of
        Raise e \<Rightarrow> Raise e
      | Ret filename \<Rightarrow>
          Ret \<lparr>level = ''hint'',
               diag_note = \<lparr>message = Some (format_str (group errmsg ''msg'') @
                                        format_str (group errmsg ''details'')),
                        suggestions = None\<rparr>,
               region = \<lparr>region_from = \<lparr>column = 1, line = ln\<rparr>,
                         region_to = \<lparr>column = col, line = ln\<rparr>\<rparr>,
               source = \<lparr>source_file = filename, source_project = None\<rparr>\<rparr>)))"

text \<open>
  The comprehension \<^verbatim>\<open>[xlat_func(project_dir, m) for m in regex.finditer('\n'.join(resp))]\<close>:
  the first exception ends it.
\<close>

fun collect :: "'a outcome list \<Rightarrow> 'a list outcome" where
  "collect [] = Ret []"
| "collect (Raise e # rs) = Raise e"
| "collect (Ret v # rs) = (case collect rs of Raise e \<Rightarrow> Raise e | Ret vs \<Rightarrow> Ret (v # vs))"

definition translate_matches ::
  "(string option \<Rightarrow> match \<Rightarrow> diagnostic outcome) \<Rightarrow> re \<Rightarrow> string option \<Rightarrow> string list \<Rightarrow>
     diagnostic list outcome" where
  "translate_matches xlat_func regex project_dir resp =
     collect (map (xlat_func project_dir) (finditer regex (join_with nl resp)))"

section \<open>The backend facade\<close>

text \<open>
  \<^verbatim>\<open>GHCModBackend\<close>: the two dictionaries, and a log that the class does not have. The log
  records what \<^verbatim>\<open>translate_regex_output\<close> does with the sessions: \<open>Mapped f\<close> when
  \<^verbatim>\<open>backend_map_file\<close> has returned for \<open>f\<close>, \<open>Commanded f\<close> when \<^verbatim>\<open>command_backend\<close> is
  called for \<open>f\<close>, \<open>Unmapping f\<close> when \<^verbatim>\<open>backend_unmap_file\<close> is called for \<open>f\<close>.
  A client is an object shared through the dictionary, so that the state a method
  leaves it in is stored back under its project.
\<close>

datatype op = Mapped string | Commanded string | Unmapping string

record backend =
  file_to_project :: "string \<rightharpoonup> string \<times> string"
  project_backends :: "string \<rightharpoonup> client"
  oplog :: "op list"

definition new_backend :: backend where
  "new_backend = \<lparr>file_to_project = Map.empty, project_backends = Map.empty, oplog = []\<rparr>"

definition ghcmod_cmd :: "string list \<Rightarrow> string list" where
  "ghcmod_cmd opt_args =
     [''ghc-mod'', ''-b'', [CHR 0x5C, CHR ''n''], ''--line-prefix'',
      GHCMOD_OUTPUT_MARKER @ '','' @ GHCMOD_ERROR_MARKER] @ opt_args @ [''legacy-interactive'']"

text \<open>
  Modelled from the spec: \<^verbatim>\<open>HaskellBackend.add_project_file\<close>, of the base class in
  \<^verbatim>\<open>internals/backend.py\<close>, which is not among the sources. The association of a file to its
  project is supplied to the backend; \<^verbatim>\<open>get_project_dir\<close> and \<^verbatim>\<open>get_backend\<close> read it as the
  pair (project, project directory).
\<close>

definition base_add_project_file :: "string \<Rightarrow> string \<Rightarrow> string \<Rightarrow> backend \<Rightarrow> backend" where
  "base_add_project_file filename project project_dir b =
     b\<lparr>file_to_project := (file_to_project b)(filename \<mapsto> (project, project_dir))\<rparr>"

text \<open>
  \<^verbatim>\<open>GHCModBackend.add_project_file\<close>. \<open>popen\<close> is what happens when the command is started in
  the directory; \<open>opt_args\<close> is the outcome of \<^verbatim>\<open>get_ghc_opts_args\<close>, which reads the
  settings and the file system.
\<close>

definition add_project_file ::
  "(string list \<Rightarrow> string \<Rightarrow> spawn) \<Rightarrow> string list outcome \<Rightarrow> string \<Rightarrow> string \<Rightarrow> string \<Rightarrow>
     backend \<Rightarrow> unit outcome \<times> backend" where
  "add_project_file popen opt_args filename project project_dir b =
     (let b1 = base_add_project_file filename project project_dir b in
      if project_backends b1 project = None then
        (case opt_args of
           Raise e \<Rightarrow> (Raise e, b1)
         | Ret args \<Rightarrow>
             (case client_init (popen (ghcmod_cmd args) project_dir) of
                Raise e \<Rightarrow> (Raise e, b1)
              | Ret c \<Rightarrow> (Ret (), b1\<lparr>project_backends := (project_backends b1)(project \<mapsto> c)\<rparr>)))
      else (Ret (), b1))"

definition get_project_dir :: "string \<Rightarrow> backend \<Rightarrow> string option" where
  "get_project_dir filename b =
     (case file_to_project b filename of None \<Rightarrow> None | Some backend_info \<Rightarrow> Some (snd backend_info))"

definition get_backend :: "string \<Rightarrow> backend \<Rightarrow> (string \<times> client) option" where
  "get_backend filename b =
     (case file_to_project b filename of
        None \<Rightarrow> None
      | Some backend_info \<Rightarrow>
          (case project_backends b (fst backend_info) of
             None \<Rightarrow> None
           | Some c \<Rightarrow> Some (fst backend_info, c)))"

text \<open>
  \<^verbatim>\<open>GHCModBackend.command_backend\<close> (here \<open>backend_command_backend\<close>, the client having a
  method of the same name), \<^verbatim>\<open>backend_map_file\<close> and \<^verbatim>\<open>backend_unmap_file\<close> share their
  shape: the session of the file's project runs the operation, and without a session
  the reply is \<^verbatim>\<open>([], [])\<close>.
\<close>

definition with_backend ::
  "string \<Rightarrow> (client \<Rightarrow> (reply outcome \<times> client) option) \<Rightarrow> backend \<Rightarrow>
     (reply outcome \<times> backend) option" where
  "with_backend filename f b =
     (case get_backend filename b of
        None \<Rightarrow> Some (Ret ([], []), b)
      | Some (project, c) \<Rightarrow>
          (case f c of
             None \<Rightarrow> None
           | Some (r, c') \<Rightarrow> Some (r, b\<lparr>project_backends := (project_backends b)(project \<mapsto> c')\<rparr>)))"

definition backend_command_backend ::
  "string \<Rightarrow> string \<Rightarrow> backend \<Rightarrow> (reply outcome \<times> backend) option" where
  "backend_command_backend filename cmd b =
     with_backend filename (command_backend cmd)
       (b\<lparr>oplog := oplog b @ [Commanded filename]\<rparr>)"

definition backend_map_file ::
  "string \<Rightarrow> string \<Rightarrow> backend \<Rightarrow> (reply outcome \<times> backend) option" where
  "backend_map_file filename contents b =
     (case with_backend filename (map_file filename contents) b of
        None \<Rightarrow> None
      | Some (Raise e, b') \<Rightarrow> Some (Raise e, b')
      | Some (Ret r, b') \<Rightarrow> Some (Ret r, b'\<lparr>oplog := oplog b' @ [Mapped filename]\<rparr>))"

definition backend_unmap_file :: "string \<Rightarrow> backend \<Rightarrow> (reply outcome \<times> backend) option" where
  "backend_unmap_file filename b =
     with_backend filename (unmap_file filename)
       (b\<lparr>oplog := oplog b @ [Unmapping filename]\<rparr>)"

text \<open>
  \<^verbatim>\<open>translate_regex_output\<close>, one file at a time: the mapping before the \<^verbatim>\<open>try\<close>, the body
  of the \<^verbatim>\<open>try\<close>, and the \<^verbatim>\<open>finally\<close> clause, which runs whether the body returned or raised
  and whose own exception replaces the body's. \<^verbatim>\<open>files\<close> and \<^verbatim>\<open>contents\<close> default to
  \<^verbatim>\<open>None\<close> in \<^verbatim>\<open>check\<close> and \<^verbatim>\<open>lint\<close>.
\<close>

type_synonym xlat = "string option \<Rightarrow> match \<Rightarrow> diagnostic outcome"

definition map_contents ::
  "(string \<rightharpoonup> string) option \<Rightarrow> string \<Rightarrow> backend \<Rightarrow> (bool outcome \<times> backend) option" where
  "map_contents contents fname b =
     (case contents of
        None \<Rightarrow> Some (Raise TypeError, b)
      | Some cts \<Rightarrow>
          (case cts fname of
             None \<Rightarrow> Some (Ret False, b)
           | Some text \<Rightarrow>
               (case backend_map_file fname text b of
                  None \<Rightarrow> None
                | Some (Raise e, b') \<Rightarrow> Some (Raise e, b')
                | Some (Ret r, b') \<Rightarrow> Some (Ret True, b'))))"

definition try_command ::
  "string \<Rightarrow> re \<Rightarrow> xlat \<Rightarrow> string option \<Rightarrow> string \<Rightarrow> backend \<Rightarrow>
     (diagnostic list outcome \<times> backend) option" where
  "try_command cmd regex xlat_func project_dir fname b =
     (case backend_command_backend fname (cmd @ '' '' @ fname) b of
        None \<Rightarrow> None
      | Some (Raise e, b') \<Rightarrow> Some (Raise e, b')
      | Some (Ret (resp, errs), b') \<Rightarrow> Some (translate_matches xlat_func regex project_dir resp, b'))"

definition finally_unmap ::
  "bool \<Rightarrow> string \<Rightarrow> (diagnostic list outcome \<times> backend) \<Rightarrow>
     (diagnostic list outcome \<times> backend) option" where
  "finally_unmap mapped_file fname rb =
     (if mapped_file then
        (case backend_unmap_file fname (snd rb) of
           None \<Rightarrow> None
         | Some (Raise e, b') \<Rightarrow> Some (Raise e, b')
         | Some (Ret r, b') \<Rightarrow> Some (fst rb, b'))
      else Some rb)"

definition translate_file ::
  "string \<Rightarrow> (string \<rightharpoonup> string) option \<Rightarrow> re \<Rightarrow> xlat \<Rightarrow> string \<Rightarrow> backend \<Rightarrow>
     (diagnostic list outcome \<times> backend) option" where
  "translate_file cmd contents regex xlat_func fname b =
     (let project_dir = get_project_dir fname b in
      case map_contents contents fname b of
        None \<Rightarrow> None
      | Some (Raise e, b1) \<Rightarrow> Some (Raise e, b1)
      | Some (Ret mapped_file, b1) \<Rightarrow>
          (case try_command cmd regex xlat_func project_dir fname b1 of
             None \<Rightarrow> None
           | Some rb \<Rightarrow> finally_unmap mapped_file fname rb))"

fun translate_files ::
  "string \<Rightarrow> (string \<rightharpoonup> string) option \<Rightarrow> re \<Rightarrow> xlat \<Rightarrow> diagnostic list \<Rightarrow> string list \<Rightarrow>
     backend \<Rightarrow> (diagnostic list outcome \<times> backend) option" where
  "translate_files cmd contents regex xlat_func retval [] b = Some (Ret retval, b)"
| "translate_files cmd contents regex xlat_func retval (fname # files) b =
     (case translate_file cmd contents regex xlat_func fname b of
        None \<Rightarrow> None
      | Some (Raise e, b') \<Rightarrow> Some (Raise e, b')
      | Some (Ret ds, b') \<Rightarrow> translate_files cmd contents regex xlat_func (retval @ ds) files b')"

definition translate_regex_output ::
  "string \<Rightarrow> string list option \<Rightarrow> (string \<rightharpoonup> string) option \<Rightarrow> re \<Rightarrow> xlat \<Rightarrow> backend \<Rightarrow>
     (diagnostic list outcome \<times> backend) option" where
  "translate_regex_output cmd files contents regex xlat_func b =
     (case files of
        None \<Rightarrow> Some (Raise TypeError, b)
      | Some fs \<Rightarrow> translate_files cmd contents regex xlat_func [] fs b)"

definition check ::
  "ospath \<Rightarrow> string list option \<Rightarrow> (string \<rightharpoonup> string) option \<Rightarrow> backend \<Rightarrow>
     (diagnostic list outcome \<times> backend) option" where
  "check P files contents b =
     translate_regex_output ''check '' files contents GHC_CHECK_REGEX (translate_check P) b"

definition lint ::
  "ospath \<Rightarrow> string list option \<Rightarrow> (string \<rightharpoonup> string) option \<Rightarrow> string list option \<Rightarrow> backend \<Rightarrow>
     (diagnostic list outcome \<times> backend) option" where
  "lint P files contents hlint b =
     translate_regex_output
       (join_with '' '' ([''lint'', ''--hlintOpt'', ''-u''] @ (case hlint of None \<Rightarrow> [] | Some h \<Rightarrow> h)))
       files contents GHC_LINT_REGEX (translate_lint P) b"


section \<open>Queries answered from a session\<close>

fun contains :: "string \<Rightarrow> string \<Rightarrow> bool" where
  "contains p [] = (p = [])"
| "contains p (c # cs) = (startswith (c # cs) p \<or> contains p cs)"

definition endswith :: "string \<Rightarrow> string \<Rightarrow> bool" where
  "endswith s p = (length p \<le> length s \<and> drop (length s - length p) s = p)"

fun split_from :: "string \<Rightarrow> string \<Rightarrow> string \<Rightarrow> string list" where
  "split_from sep cur [] = [rev cur]"
| "split_from sep cur (c # cs) =
     (if sep \<noteq> [] \<and> startswith (c # cs) sep
      then rev cur # split_from sep [] (drop (length sep) (c # cs))
      else split_from sep (c # cur) cs)"

definition split_str :: "string \<Rightarrow> string \<Rightarrow> string list" where
  "split_str s sep = split_from sep [] s"

fun ws_split_from :: "string \<Rightarrow> string \<Rightarrow> string list" where
  "ws_split_from cur [] = (if cur = [] then [] else [rev cur])"
| "ws_split_from cur (c # cs) =
     (if is_space c then (if cur = [] then ws_split_from [] cs else rev cur # ws_split_from [] cs)
      else ws_split_from (c # cur) cs)"

definition ws_split :: "string \<Rightarrow> string list" where
  "ws_split s = ws_split_from [] s"

text \<open>
  The classes of \<^verbatim>\<open>symbols.py\<close>, which is not among the sources, reduced to the arguments
  that \<^verbatim>\<open>module\<close> and \<^verbatim>\<open>scope_modules\<close> pass; an instance is taken to be truthy.
  \<^verbatim>\<open>dispatch_callbacks\<close> hands the result to the caller's callback: the functions below
  return what they pass to it.
\<close>

datatype decl =
    Class string
  | Data string
  | Newtype string
  | Function string string

datatype location = InstalledLocation string | PackageDb

datatype module_sym = Module string "string \<rightharpoonup> decl" location

definition DOTTED_NAME :: re where
  "DOTTED_NAME = Seq (Plus Word) (Plus (Seq (Lit (CHR ''.'')) (Plus Word)))"

fun module_decls :: "string list \<Rightarrow> (string \<rightharpoonup> decl) \<Rightarrow> (string \<rightharpoonup> decl) outcome" where
  "module_decls [] moddecls = Ret moddecls"
| "module_decls (mdecl # modinfo) moddecls =
     (case split_str mdecl '' :: '' of
        [name, declinfo] \<Rightarrow>
          module_decls modinfo
            (moddecls(name \<mapsto>
               (if startswith declinfo ''class'' then Class name
                else if startswith declinfo ''data'' then Data name
                else if startswith declinfo ''newtype'' then Newtype name
                else Function name declinfo)))
      | _ \<Rightarrow> Raise ValueError)"

definition store_client :: "backend \<Rightarrow> string \<Rightarrow> client \<Rightarrow> backend" where
  "store_client b project_name c = b\<lparr>project_backends := (project_backends b)(project_name \<mapsto> c)\<rparr>"

definition module ::
  "string \<Rightarrow> string \<Rightarrow> string \<Rightarrow> backend \<Rightarrow> (module_sym list outcome \<times> backend) option" where
  "module project_name lookup search_type b =
     (if search_type = ''exact'' \<and> re_match DOTTED_NAME lookup then
        (case project_backends b project_name of
           None \<Rightarrow> Some (Raise ValueError, b)
         | Some c \<Rightarrow>
             (case command_backend (''browse -d -o '' @ lookup) c of
                None \<Rightarrow> None
              | Some (Raise e, c') \<Rightarrow> Some (Raise e, store_client b project_name c')
              | Some (Ret (modinfo, err), c') \<Rightarrow>
                  (if err = [] \<or> \<not> contains ''EXCEPTION'' (join_with '' '' err) then
                     (case module_decls modinfo Map.empty of
                        Raise e \<Rightarrow> Some (Raise e, store_client b project_name c')
                      | Ret moddecls \<Rightarrow>
                          Some (Ret [Module lookup moddecls PackageDb],
                                store_client b project_name c'))
                   else Some (Ret [], store_client b project_name c'))))
      else Some (Ret [], b))"

text \<open>
  \<^verbatim>\<open>lookup_match\<close>: \<open>re_search\<close> stands for \<^verbatim>\<open>re.search\<close> on a pattern supplied by the caller.
\<close>

definition lookup_match ::
  "(string \<Rightarrow> string \<Rightarrow> bool outcome) \<Rightarrow> string \<Rightarrow> string \<Rightarrow> string \<Rightarrow> bool outcome" where
  "lookup_match re_search elt lookup search_type =
     (if search_type = ''exact'' \<and> elt = lookup then Ret True
      else if search_type = ''prefix'' \<and> startswith elt lookup then Ret True
      else if search_type = ''suffix'' \<and> endswith elt lookup then Ret True
      else if search_type = ''in'' @ ''fix'' \<and> contains lookup elt then Ret True
      else if search_type = ''regex'' then re_search lookup elt
      else Ret False)"

fun filtered_mods ::
  "(string \<Rightarrow> string \<Rightarrow> bool outcome) \<Rightarrow> string \<Rightarrow> string \<Rightarrow> string list \<Rightarrow> module_sym list outcome" where
  "filtered_mods re_search lookup search_type [] = Ret []"
| "filtered_mods re_search lookup search_type (m # modules) =
     (if length m < 2 then Raise IndexError
      else
        (case lookup_match re_search [m ! 1] lookup search_type of
           Raise e \<Rightarrow> Raise e
         | Ret False \<Rightarrow> filtered_mods re_search lookup search_type modules
         | Ret True \<Rightarrow>
             (let md = ws_split m in
              if length md < 2 then Raise IndexError
              else
                (case filtered_mods re_search lookup search_type modules of
                   Raise e \<Rightarrow> Raise e
                 | Ret mods \<Rightarrow>
                     Ret (Module (md ! 1) Map.empty (InstalledLocation (md ! 0)) # mods)))))"

definition scope_modules ::
  "(string \<Rightarrow> string \<Rightarrow> bool outcome) \<Rightarrow> string \<Rightarrow> string \<Rightarrow> string \<Rightarrow> string \<Rightarrow> backend \<Rightarrow>
     (module_sym list outcome \<times> backend) option" where
  "scope_modules re_search project_name filename lookup search_type b =
     (case project_backends b project_name of
        None \<Rightarrow> Some (Raise ValueError, b)
      | Some c \<Rightarrow>
          (case command_backend ''list -d'' c of
             None \<Rightarrow> None
           | Some (Raise e, c') \<Rightarrow> Some (Raise e, store_client b project_name c')
           | Some (Ret (modules, errs), c') \<Rightarrow>
               Some (filtered_mods re_search lookup search_type modules,
                     store_client b project_name c')))"

text \<open>
  \<^verbatim>\<open>langs\<close> and \<^verbatim>\<open>flags\<close> differ in the command only. The right-hand side of the assignment
  is \<^verbatim>\<open>backend.command_backend(cmd) if backend is not None else []\<close>, unpacked into two
  names: unpacking the empty list raises \<^verbatim>\<open>ValueError\<close>.
\<close>

definition query :: "string \<Rightarrow> string \<Rightarrow> backend \<Rightarrow> (string list outcome \<times> backend) option" where
  "query cmd project_name b =
     (case project_backends b project_name of
        None \<Rightarrow> Some (Raise ValueError, b)
      | Some c \<Rightarrow>
          (case command_backend cmd c of
             None \<Rightarrow> None
           | Some (Raise e, c') \<Rightarrow> Some (Raise e, store_client b project_name c')
           | Some (Ret (out, errs), c') \<Rightarrow> Some (Ret out, store_client b project_name c')))"

definition langs :: "string \<Rightarrow> backend \<Rightarrow> (string list outcome \<times> backend) option" where
  "langs project_name b = query ''lang'' project_name b"

definition flags :: "string \<Rightarrow> backend \<Rightarrow> (string list outcome \<times> backend) option" where
  "flags project_name b = query ''flag'' project_name b"

section \<open>Sessions used as examples\<close>

text \<open>
  A backend with the single project \<^verbatim>\<open>proj\<close> in \<^verbatim>\<open>/proj\<close>, whose session has started and
  has the given output pending; and the client that \<^verbatim>\<open>GHCModClient.__init__\<close> builds when
  the executable is not found.
\<close>

definition one_project :: "read_ev list \<Rightarrow> backend" where
  "one_project evs =
     snd (add_project_file (\<lambda>cmd cwd. Started (quiet evs)) (Ret []) ''Foo.hs'' ''proj'' ''/proj''
            new_backend)"



definition zombie :: client where
  "zombie = \<lparr>ghcmod = Some \<lparr>process = None,
                process_err = Some ''SublimeHaskell.ProcHelper: ghc-mod was not found on PATH!''\<rparr>,
              action_lock = None, stderr_drain = None\<rparr>"

section \<open>Vocabulary of the statements about the grammars\<close>

definition FLAG_TOKEN :: re where
  "FLAG_TOKEN = Alt (Lit (CHR ''*'')) (Seq (OneOf ''Ww'') (lits ''arning:''))"

fun flag_groups :: "re \<Rightarrow> bool" where
  "flag_groups (Grp n a) = ((if n = ''flag'' then a = FLAG_TOKEN else True) \<and> flag_groups a)"
| "flag_groups (Seq a b) = (flag_groups a \<and> flag_groups b)"
| "flag_groups (Alt a b) = (flag_groups a \<and> flag_groups b)"
| "flag_groups (Star a) = flag_groups a"
| "flag_groups r = True"

definition span :: "string \<Rightarrow> nat \<times> nat \<Rightarrow> string" where
  "span s ab = take (snd ab - fst ab) (drop (fst ab) s)"

definition flags_ok :: "string \<Rightarrow> groups \<Rightarrow> bool" where
  "flags_ok s g = list_all (\<lambda>e. fst e = ''flag'' \<longrightarrow> span s (snd e) \<in> {''*'', ''Warning:'', ''warning:''}) g"

text \<open>A state reached from another: not before it, and not beyond the end of the string.\<close>

definition within :: "string \<Rightarrow> mstate \<Rightarrow> mstate \<Rightarrow> bool" where
  "within s x y = (fst x \<le> fst y \<and> fst y \<le> max (fst x) (length s))"

section \<open>Vocabulary of the statements about replies\<close>

definition is_out :: "string \<Rightarrow> bool" where
  "is_out l = (take 3 l = ''O: '')"

definition is_err :: "string \<Rightarrow> bool" where
  "is_err l = (take 3 l = ''X: '')"

definition payload :: "string \<Rightarrow> string" where
  "payload l = rstrip (drop 3 l)"

definition is_ok :: "string \<Rightarrow> bool" where
  "is_ok l = (is_out l \<and> payload l = ''OK'')"

definition continues :: "string \<Rightarrow> bool" where
  "continues l = (if is_out l then payload l \<noteq> ''OK'' else is_err l)"

text \<open>
  The reply as the specification words it: the lines carrying each marker, the line
  terminator apart, with the three characters of the marker removed and nothing else.
\<close>

definition chomp :: "string \<Rightarrow> string" where
  "chomp l = (if l \<noteq> [] \<and> last l = CHR 0x0A then butlast l else l)"

definition spec_reply :: "string list \<Rightarrow> reply" where
  "spec_reply ls = (map (\<lambda>l. drop 3 (chomp l)) (filter is_out ls),
                    map (\<lambda>l. drop 3 (chomp l)) (filter is_err ls))"

text \<open>The writes of a command: all succeed, or the first failure is the k-th.\<close>

definition writes_ok :: "proc \<Rightarrow> nat \<Rightarrow> bool" where
  "writes_ok p n = (\<forall>k<n. \<not> wr_raises p (wr_count p + k))"

definition sent :: "string list \<Rightarrow> proc \<Rightarrow> proc" where
  "sent texts p = p\<lparr>wr_count := wr_count p + length texts, stdin_log := stdin_log p @ concat texts\<rparr>"

section \<open>Lemmas: strings and the read loop\<close>

lemma rstrip_append:
  "rstrip (a @ b) = (if \<forall>c\<in>set b. is_space c then rstrip a else a @ rstrip b)"
  by (simp add: rstrip_def dropWhile_append)

lemma rstrip_all_space: "\<forall>c\<in>set b. is_space c \<Longrightarrow> rstrip b = []"
  by (simp add: rstrip_def)

lemma length_rstrip: "length (rstrip a) \<le> length a"
  by (simp add: rstrip_def length_dropWhile_le[of is_space "rev a", simplified])

lemma drop_rstrip: "drop n (rstrip s) = rstrip (drop n s)"
proof (cases "\<forall>c\<in>set (drop n s). is_space c")
  case True
  then have eq: "rstrip s = rstrip (take n s)"
    using rstrip_append[of "take n s" "drop n s"] by simp
  have "length (rstrip (take n s)) \<le> n"
    using length_rstrip[of "take n s"] by simp
  with True eq show ?thesis by (simp add: rstrip_all_space)
next
  case False
  then have eq: "rstrip s = take n s @ rstrip (drop n s)"
    using rstrip_append[of "take n s" "drop n s"] by auto
  from False have "n \<le> length s" by (cases "n \<le> length s") auto
  with eq show ?thesis by simp
qed

lemma rstrip_idem: "rstrip (rstrip s) = rstrip s"
proof -
  have "dropWhile is_space (dropWhile is_space xs) = dropWhile is_space xs" for xs
    by (induction xs) auto
  then show ?thesis by (simp add: rstrip_def)
qed

lemma continues_nonempty: "continues l \<Longrightarrow> l \<noteq> []"
  by (auto simp: continues_def is_out_def is_err_def)

lemma read_loop_continues:
  "\<forall>l\<in>set ls. continues l \<Longrightarrow>
   read_loop (map Line ls @ evs) so se =
   read_loop evs (so @ map payload (filter is_out ls)) (se @ map payload (filter is_err ls))"
proof (induction ls arbitrary: so se)
  case Nil
  then show ?case by simp
next
  case (Cons l ls)
  then have l: "continues l" and ls: "\<forall>l\<in>set ls. continues l" by simp_all
  from l have ne: "l \<noteq> []" by (rule continues_nonempty)
  show ?case
  proof (cases "is_out l")
    case True
    with l have "payload l \<noteq> ''OK''" by (simp add: continues_def)
    with True ne show ?thesis
      using Cons.IH[OF ls]
      by (simp add: Let_def GHCMOD_OUTPUT_MARKER_def is_out_def is_err_def payload_def
          drop_rstrip rstrip_idem)
  next
    case False
    with l have "is_err l" by (simp add: continues_def)
    with False ne show ?thesis
      using Cons.IH[OF ls]
      by (simp add: Let_def GHCMOD_OUTPUT_MARKER_def GHCMOD_ERROR_MARKER_def is_out_def
          is_err_def payload_def drop_rstrip rstrip_idem)
  qed
qed

section \<open>Lemmas: the session client\<close>

lemma client_init_Started: "client_init (Started p) = Ret (running p)"
  by (simp add: client_init_def prochelper_init_def running_def)

lemma shutdown_process:
  "ghcmod c = Some ph \<Longrightarrow> process ph = Some p \<Longrightarrow> shutdown c = (Ret (), dead)"
  by (simp add: shutdown_def stdin_op_def)

lemma shutdown_dead: "shutdown dead = (Ret (), dead)"
  by (simp add: shutdown_def dead_def)

lemma on_oserror_process:
  "ghcmod c = Some ph \<Longrightarrow> process ph = Some p \<Longrightarrow> on_oserror c = Some (Ret ([], []), dead)"
  by (simp add: on_oserror_def shutdown_process)

lemma read_response_ok:
  assumes "ghcmod c = Some ph" and "process ph = Some p"
    and "stdout p = map Line ls @ Line t # rest"
    and "\<forall>l\<in>set ls. continues l" and "is_ok t"
  shows "read_response c =
         Some (Ret (map payload (filter is_out ls), map payload (filter is_err ls)),
               set_process c ph (p\<lparr>stdout := rest\<rparr>))"
proof -
  from \<open>is_ok t\<close> have t: "take 3 t = ''O: ''" "rstrip (drop 3 t) = ''OK''" "t \<noteq> []"
    by (auto simp: is_ok_def is_out_def payload_def)
  have "read_loop (stdout p) [] [] =
        read_loop (Line t # rest) (map payload (filter is_out ls)) (map payload (filter is_err ls))"
    using read_loop_continues[OF assms(4), of "Line t # rest" "[]" "[]"] assms(3) by simp
  also have "\<dots> = Some (True, rest, map payload (filter is_out ls), map payload (filter is_err ls))"
    using t by (simp add: Let_def GHCMOD_OUTPUT_MARKER_def drop_rstrip)
  finally show ?thesis
    using assms(1,2) by (simp add: read_response_def)
qed

lemma read_response_eof:
  assumes "ghcmod c = Some ph" and "process ph = Some p"
    and "stdout p = map Line ls @ Line [] # rest"
    and "\<forall>l\<in>set ls. continues l"
  shows "read_response c =
         Some (Ret (map payload (filter is_out ls), map payload (filter is_err ls)),
               set_process c ph (p\<lparr>stdout := rest\<rparr>))"
proof -
  have "read_loop (stdout p) [] [] =
        read_loop (Line [] # rest) (map payload (filter is_out ls)) (map payload (filter is_err ls))"
    using read_loop_continues[OF assms(4), of "Line [] # rest" "[]" "[]"] assms(3) by simp
  also have "\<dots> = Some (True, rest, map payload (filter is_out ls), map payload (filter is_err ls))"
    by simp
  finally show ?thesis
    using assms(1,2) by (simp add: read_response_def)
qed

lemma read_response_oserror:
  assumes "ghcmod c = Some ph" and "process ph = Some p"
    and "stdout p = map Line ls @ ReadOSError # rest"
    and "\<forall>l\<in>set ls. continues l"
  shows "read_response c =
         Some (Ret (map payload (filter is_out ls), map payload (filter is_err ls)), dead)"
proof -
  have "read_loop (stdout p) [] [] =
        read_loop (ReadOSError # rest) (map payload (filter is_out ls)) (map payload (filter is_err ls))"
    using read_loop_continues[OF assms(4), of "ReadOSError # rest" "[]" "[]"] assms(3) by simp
  also have "\<dots> = Some (False, rest, map payload (filter is_out ls), map payload (filter is_err ls))"
    by simp
  finally show ?thesis
    using assms(1,2)
    by (simp add: read_response_def shutdown_process[of _ "ph\<lparr>process := Some (p\<lparr>stdout := rest\<rparr>)\<rparr>"]
        set_process_def)
qed

lemma send_then_read_ok:
  "ghcmod c = Some ph \<Longrightarrow> process ph = Some p \<Longrightarrow> writes_ok p (length texts) \<Longrightarrow>
   send_then_read texts c = read_response (set_process c ph (sent texts p))"
proof (induction texts arbitrary: c ph p)
  case Nil
  then show ?case
    by (cases c; cases ph; cases p) (simp add: sent_def set_process_def)
next
  case (Cons t ts)
  let ?p' = "p\<lparr>wr_count := Suc (wr_count p), stdin_log := stdin_log p @ t\<rparr>"
  let ?c' = "set_process c ph ?p'"
  from Cons.prems(3) have now: "\<not> wr_raises p (wr_count p)"
    by (auto simp: writes_ok_def dest: spec[of _ 0])
  have later: "writes_ok ?p' (length ts)"
    unfolding writes_ok_def
  proof (intro allI impI)
    fix k assume "k < length ts"
    then have "Suc k < length (t # ts)" by simp
    with Cons.prems(3) have "\<not> wr_raises p (wr_count p + Suc k)"
      unfolding writes_ok_def by blast
    then show "\<not> wr_raises ?p' (wr_count ?p' + k)" by simp
  qed
  have step: "stdin_op t c = (Ret (), ?c')"
    using Cons.prems(1,2) now by (simp add: stdin_op_def)
  have "send_then_read ts ?c' =
        read_response (set_process ?c' (ph\<lparr>process := Some ?p'\<rparr>) (sent ts ?p'))"
    by (rule Cons.IH[OF _ _ later]) (simp_all add: set_process_def)
  moreover have "set_process ?c' (ph\<lparr>process := Some ?p'\<rparr>) (sent ts ?p') =
                 set_process c ph (sent (t # ts) p)"
    by (simp add: set_process_def sent_def)
  ultimately show ?case using step by simp
qed

lemma send_then_read_fails:
  "ghcmod c = Some ph \<Longrightarrow> process ph = Some p \<Longrightarrow> k < length texts \<Longrightarrow>
   wr_raises p (wr_count p + k) \<Longrightarrow>
   \<exists>c' ph' p'. send_then_read texts c = Some (Raise OSError, c') \<and>
       ghcmod c' = Some ph' \<and> process ph' = Some p' \<and> action_lock c' = action_lock c"
proof (induction texts arbitrary: c ph p k)
  case Nil
  then show ?case by simp
next
  case (Cons t ts)
  show ?case
  proof (cases "wr_raises p (wr_count p)")
    case True
    with Cons.prems(1,2) show ?thesis
      by (simp add: stdin_op_def set_process_def)
  next
    case False
    let ?p' = "p\<lparr>wr_count := Suc (wr_count p), stdin_log := stdin_log p @ t\<rparr>"
    let ?c' = "set_process c ph ?p'"
    from False Cons.prems(4) obtain k' where k': "k = Suc k'"
      by (cases k) auto
    have step: "stdin_op t c = (Ret (), ?c')"
      using Cons.prems(1,2) False by (simp add: stdin_op_def)
    have "\<exists>c' ph' p'. send_then_read ts ?c' = Some (Raise OSError, c') \<and>
       ghcmod c' = Some ph' \<and> process ph' = Some p' \<and> action_lock c' = action_lock ?c'"
    proof (rule Cons.IH[of ?c' "ph\<lparr>process := Some ?p'\<rparr>" ?p' k'])
      show "ghcmod ?c' = Some (ph\<lparr>process := Some ?p'\<rparr>)" by (simp add: set_process_def)
      show "process (ph\<lparr>process := Some ?p'\<rparr>) = Some ?p'" by simp
      show "k' < length ts" using Cons.prems(3) k' by simp
      show "wr_raises ?p' (wr_count ?p' + k')" using Cons.prems(4) k' by simp
    qed
    with step show ?thesis by (simp add: set_process_def)
  qed
qed

lemma locked_try_write_fails:
  assumes "ghcmod c = Some ph" and "process ph = Some p" and "action_lock c = Some l"
    and "k < length texts" and "wr_raises p (wr_count p + k)"
  shows "locked_try texts c = Some (Ret ([], []), dead)"
proof -
  from send_then_read_fails[OF assms(1,2,4,5)] obtain c' ph' p' where
    "send_then_read texts c = Some (Raise OSError, c')" "ghcmod c' = Some ph'" "process ph' = Some p'"
    by blast
  then show ?thesis
    using assms(3) by (simp add: locked_try_def on_oserror_process)
qed

lemma locked_try_read_fails:
  assumes "ghcmod c = Some ph" and "process ph = Some p" and "action_lock c = Some l"
    and "writes_ok p (length texts)"
    and "stdout p = map Line ls @ ReadOSError # rest" and "\<forall>l\<in>set ls. continues l"
  shows "locked_try texts c =
         Some (Ret (map payload (filter is_out ls), map payload (filter is_err ls)), dead)"
proof -
  have "send_then_read texts c = read_response (set_process c ph (sent texts p))"
    by (rule send_then_read_ok[OF assms(1,2,4)])
  also have "\<dots> = Some (Ret (map payload (filter is_out ls), map payload (filter is_err ls)), dead)"
    by (rule read_response_oserror[where ph = "ph\<lparr>process := Some (sent texts p)\<rparr>"
          and p = "sent texts p" and rest = rest])
       (simp_all add: set_process_def sent_def assms(5,6))
  finally show ?thesis using assms(3) by (simp add: locked_try_def)
qed

lemma locked_try_dead: "locked_try texts dead = Some (Raise AttributeError, dead)"
  by (simp add: locked_try_def dead_def)

section \<open>Lemmas: the log of the facade\<close>









section \<open>Lemmas: what the unmapping does to the session\<close>





section \<open>Lemmas: the flag of the check grammar\<close>

lemma one_char_cases:
  "\<exists>c cs. drop (fst x) s = c # cs \<and> P c \<and> y = (Suc (fst x), snd x)"
  if "y \<in> set (one_char P s x)"
proof (cases "drop (fst x) s")
  case Nil
  with that show ?thesis by (simp add: one_char_def)
next
  case (Cons c cs)
  with that show ?thesis by (cases "P c") (simp_all add: one_char_def)
qed

lemma lit_step:
  "y \<in> set (matches (Lit c) s x) \<Longrightarrow> \<exists>cs. drop (fst x) s = c # cs \<and> y = (Suc (fst x), snd x)"
  by (auto dest: one_char_cases)

lemma drop_Suc_Cons: "drop i s = c # cs \<Longrightarrow> drop (Suc i) s = cs"
  by (metis drop_Suc list.sel(3) tl_drop)

lemma lits_steps:
  "y \<in> set (matches (lits w) s x) \<Longrightarrow>
   \<exists>cs. drop (fst x) s = w @ cs \<and> y = (fst x + length w, snd x)"
proof (induction w arbitrary: x)
  case Nil
  then show ?case by (simp add: lits_def)
next
  case (Cons c w)
  from Cons.prems obtain z where z: "z \<in> set (matches (Lit c) s x)"
    and y: "y \<in> set (matches (lits w) s z)"
    by (auto simp: lits_def)
  from lit_step[OF z] obtain cs where cs: "drop (fst x) s = c # cs" "z = (Suc (fst x), snd x)"
    by blast
  from Cons.IH[OF y] cs obtain cs' where
    "drop (Suc (fst x)) s = w @ cs'" "y = (Suc (fst x) + length w, snd x)" by auto
  with cs drop_Suc_Cons[OF cs(1)] show ?case by auto
qed

lemma flag_token_steps:
  assumes "y \<in> set (matches FLAG_TOKEN s x)"
  shows "snd y = snd x \<and> span s (fst x, fst y) \<in> {''*'', ''Warning:'', ''warning:''}"
proof -
  from assms consider
    (star) "y \<in> set (matches (Lit (CHR ''*'')) s x)"
    | (warn) z where "z \<in> set (matches (OneOf ''Ww'') s x)" "y \<in> set (matches (lits ''arning:'') s z)"
    by (auto simp: FLAG_TOKEN_def)
  then show ?thesis
  proof cases
    case star
    from lit_step[OF star] show ?thesis by (auto simp: span_def)
  next
    case warn
    from warn(1) obtain c cs where c: "drop (fst x) s = c # cs" "c \<in> set ''Ww''"
      "z = (Suc (fst x), snd x)"
      by (auto dest: one_char_cases)
    from lits_steps[OF warn(2)] c(3) obtain cs' where
      r: "drop (Suc (fst x)) s = ''arning:'' @ cs'" "y = (Suc (fst x) + 7, snd x)" by auto
    from c(1) r(1) have "drop (fst x) s = c # ''arning:'' @ cs'"
      using drop_Suc_Cons by fastforce
    with r(2) c(2) show ?thesis by (auto simp: span_def)
  qed
qed

lemma star_iter_preserves:
  assumes f: "\<And>x y. Q x \<Longrightarrow> y \<in> set (f x) \<Longrightarrow> Q y"
  shows "Q x \<Longrightarrow> y \<in> set (star_iter f n x) \<Longrightarrow> Q y"
proof (induction n arbitrary: x)
  case 0
  then show ?case by simp
next
  case (Suc n)
  from Suc.prems(2) consider "y = x"
    | z where "z \<in> set (f x)" "y \<in> set (star_iter f n z)"
    by (auto split: if_splits)
  then show ?case
  proof cases
    case 1
    with Suc.prems(1) show ?thesis by simp
  next
    case 2
    from f[OF Suc.prems(1) 2(1)] have "Q z" .
    from Suc.IH[OF this 2(2)] show ?thesis .
  qed
qed

lemma matches_flags_ok:
  "flag_groups r \<Longrightarrow> flags_ok s (snd x) \<Longrightarrow> y \<in> set (matches r s x) \<Longrightarrow> flags_ok s (snd y)"
proof (induction r arbitrary: x y)
  case (Seq a b)
  from Seq.prems(3) obtain z where "z \<in> set (matches a s x)" "y \<in> set (matches b s z)"
    by auto
  note zy = this
  from Seq.prems(1) have a: "flag_groups a" and b: "flag_groups b" by simp_all
  from Seq.IH(1)[OF a Seq.prems(2) zy(1)] have "flags_ok s (snd z)" .
  from Seq.IH(2)[OF b this zy(2)] show ?case .
next
  case (Alt a b)
  from Alt.prems(1) have a: "flag_groups a" and b: "flag_groups b" by simp_all
  from Alt.prems(3) consider "y \<in> set (matches a s x)" | "y \<in> set (matches b s x)" by auto
  then show ?case
  proof cases
    case 1
    from Alt.IH(1)[OF a Alt.prems(2) 1] show ?thesis .
  next
    case 2
    from Alt.IH(2)[OF b Alt.prems(2) 2] show ?thesis .
  qed
next
  case (Star a)
  have step: "\<And>x y. flags_ok s (snd x) \<Longrightarrow> y \<in> set (matches a s x) \<Longrightarrow> flags_ok s (snd y)"
    using Star.IH Star.prems(1) by simp
  from Star.prems(3) have "y \<in> set (star_iter (\<lambda>y. matches a s y) (length s - fst x) x)"
    by simp
  from star_iter_preserves[where Q = "\<lambda>x. flags_ok s (snd x)", OF step Star.prems(2) this]
  show ?case .
next
  case (Grp n a)
  from Grp.prems(3) obtain z where z: "z \<in> set (matches a s x)"
    and y: "y = (fst z, (n, fst x, fst z) # snd z)"
    by auto
  from Grp.IH[OF _ Grp.prems(2) z] Grp.prems(1) have ok: "flags_ok s (snd z)" by simp
  show ?case
  proof (cases "n = ''flag''")
    case True
    with Grp.prems(1) have "a = FLAG_TOKEN" by simp
    with z flag_token_steps have "span s (fst x, fst z) \<in> {''*'', ''Warning:'', ''warning:''}"
      by blast
    with ok y show ?thesis by (simp add: flags_ok_def)
  next
    case False
    with ok y show ?thesis by (simp add: flags_ok_def)
  qed
qed (auto simp: one_char_def split: list.splits if_splits)

lemma search_Some:
  "search r s i n = Some m \<Longrightarrow> \<exists>j. match_at r s j = Some m"
proof (induction n arbitrary: i)
  case 0
  then show ?case by simp
next
  case (Suc n)
  show ?case
  proof (cases "match_at r s i")
    case None
    with Suc.prems have "search r s (Suc i) n = Some m" by simp
    then show ?thesis by (rule Suc.IH)
  next
    case (Some m')
    with Suc.prems have "m' = m" by simp
    with Some show ?thesis by blast
  qed
qed

lemma finditer_from_match:
  "m \<in> set (finditer_from n r s pos) \<Longrightarrow> \<exists>j. match_at r s j = Some m"
proof (induction n arbitrary: pos)
  case 0
  then show ?case by simp
next
  case (Suc n)
  show ?case
  proof (cases "search r s pos (Suc (length s) - pos)")
    case None
    with Suc.prems show ?thesis by simp
  next
    case (Some m')
    with Suc.prems consider "m = m'"
      | "m \<in> set (finditer_from n r s (if m_end m' = m_start m' then Suc (m_end m') else m_end m'))"
      by auto
    then show ?thesis
    proof cases
      case 1
      with Some show ?thesis by (auto dest: search_Some)
    next
      case 2
      then show ?thesis by (rule Suc.IH)
    qed
  qed
qed

lemma finditer_match: "m \<in> set (finditer r s) \<Longrightarrow> \<exists>j. match_at r s j = Some m"
  unfolding finditer_def by (rule finditer_from_match)

lemma match_at_groups:
  "match_at r s j = Some m \<Longrightarrow>
   m_string m = s \<and> (\<exists>y \<in> set (matches r s (j, [])). m_groups m = snd y)"
  by (auto simp: match_at_def split: list.splits)

lemma check_regex_flag_groups: "flag_groups GHC_CHECK_REGEX"
  by (simp add: GHC_CHECK_REGEX_def FILE_LINE_COL_REGEX_def seqs_def Plus_def Opt_def lits_def
      FLAG_TOKEN_def)

lemma flags_ok_group:
  assumes "flags_ok (m_string m) (m_groups m)"
  shows "group m ''flag'' \<in> {None, Some ''*'', Some ''Warning:'', Some ''warning:''}"
proof (cases "map_of (m_groups m) ''flag''")
  case None
  then show ?thesis by (simp add: group_def)
next
  case (Some ab)
  then have "(''flag'', ab) \<in> set (m_groups m)" by (rule map_of_SomeD)
  with assms have "span (m_string m) ab \<in> {''*'', ''Warning:'', ''warning:''}"
    by (auto simp: flags_ok_def list_all_iff)
  with Some show ?thesis by (cases ab) (auto simp: group_def span_def)
qed

lemma check_regex_flag:
  assumes "m \<in> set (finditer GHC_CHECK_REGEX text)"
  shows "group m ''flag'' \<in> {None, Some ''*'', Some ''Warning:'', Some ''warning:''}"
proof -
  from finditer_match[OF assms] obtain j where "match_at GHC_CHECK_REGEX text j = Some m" ..
  from match_at_groups[OF this] obtain y where
    s: "m_string m = text" and y: "y \<in> set (matches GHC_CHECK_REGEX text (j, []))"
    and g: "m_groups m = snd y" by blast
  have "flags_ok text (snd (j, []))" by (simp add: flags_ok_def)
  from matches_flags_ok[OF check_regex_flag_groups this y] s g
  have "flags_ok (m_string m) (m_groups m)" by simp
  then show ?thesis by (rule flags_ok_group)
qed

section \<open>Lemmas: the bounds of the matcher\<close>

text \<open>
  Matching moves forward and stays inside the string, so that the bounds on the
  iterations of a star and on the number of matches never cut a search short.
\<close>

lemma one_char_bounds:
  "y \<in> set (one_char P s x) \<Longrightarrow> fst x < fst y \<and> fst y \<le> length s"
proof -
  assume "y \<in> set (one_char P s x)"
  from one_char_cases[OF this] obtain c cs where
    d: "drop (fst x) s = c # cs" and y: "y = (Suc (fst x), snd x)" by blast
  from d have "fst x < length s" by (cases "fst x < length s") auto
  with y show ?thesis by simp
qed

lemma within_refl: "within s x x"
  by (simp add: within_def)

lemma within_trans: "within s x y \<Longrightarrow> within s y z \<Longrightarrow> within s x z"
  by (auto simp: within_def)

lemma star_iter_within:
  assumes f: "\<And>x y. y \<in> set (f x) \<Longrightarrow> within s x y"
  shows "y \<in> set (star_iter f n x) \<Longrightarrow> within s x y"
proof (induction n arbitrary: x)
  case 0
  then show ?case by (simp add: within_refl)
next
  case (Suc n)
  from Suc.prems consider "y = x"
    | z where "z \<in> set (f x)" "y \<in> set (star_iter f n z)"
    by (auto split: if_splits)
  then show ?case
  proof cases
    case 1
    then show ?thesis by (simp add: within_refl)
  next
    case 2
    from f[OF 2(1)] Suc.IH[OF 2(2)] show ?thesis by (rule within_trans)
  qed
qed

lemma matches_within: "y \<in> set (matches r s x) \<Longrightarrow> within s x y"
proof (induction r arbitrary: x y)
  case (Seq a b)
  from Seq.prems obtain z where "z \<in> set (matches a s x)" "y \<in> set (matches b s z)"
    by auto
  with Seq.IH show ?case by (blast intro: within_trans)
next
  case (Alt a b)
  from Alt.prems consider "y \<in> set (matches a s x)" | "y \<in> set (matches b s x)" by auto
  then show ?case by cases (rule Alt.IH, assumption)+
next
  case (Star a)
  from Star.prems have "y \<in> set (star_iter (\<lambda>y. matches a s y) (length s - fst x) x)"
    by simp
  then show ?case by (rule star_iter_within[rotated]) (rule Star.IH)
next
  case (Grp n a)
  from Grp.prems obtain z where z: "z \<in> set (matches a s x)"
    and y: "y = (fst z, (n, fst x, fst z) # snd z)"
    by auto
  from Grp.IH[OF z] y show ?case by (simp add: within_def)
qed (auto simp: within_def dest!: one_char_bounds split: list.splits if_splits)

text \<open>More fuel than the length of what is left changes nothing.\<close>

lemma star_iter_fuel:
  assumes f: "\<And>x y. y \<in> set (f x) \<Longrightarrow> within s x y"
  shows "length s - fst x \<le> n \<Longrightarrow> length s - fst x \<le> m \<Longrightarrow>
         star_iter f n x = star_iter f m x"
proof (induction n arbitrary: m x)
  case 0
  then have none: "\<And>y. y \<in> set (f x) \<Longrightarrow> \<not> fst x < fst y"
    using f by (fastforce simp: within_def)
  show ?case
  proof (cases m)
    case 0
    then show ?thesis by simp
  next
    case (Suc m')
    have "concat (map (\<lambda>y. if fst x < fst y then star_iter f m' y else []) (f x)) = []"
      using none by (auto simp: concat_eq_Nil_conv)
    with Suc show ?thesis by simp
  qed
next
  case (Suc n)
  show ?case
  proof (cases m)
    case 0
    with Suc.prems have "length s \<le> fst x" by simp
    then have none: "\<And>y. y \<in> set (f x) \<Longrightarrow> \<not> fst x < fst y"
      using f by (fastforce simp: within_def)
    have "concat (map (\<lambda>y. if fst x < fst y then star_iter f n y else []) (f x)) = []"
      using none by (auto simp: concat_eq_Nil_conv)
    with 0 show ?thesis by simp
  next
    case (Suc m')
    have eq: "(if fst x < fst z then star_iter f n z else []) =
              (if fst x < fst z then star_iter f m' z else [])" if "z \<in> set (f x)" for z
    proof (cases "fst x < fst z")
      case True
      with Suc.prems Suc have "length s - fst z \<le> n" "length s - fst z \<le> m'" by simp_all
      from Suc.IH[OF this] True show ?thesis by simp
    next
      case False
      then show ?thesis by simp
    qed
    have "map (\<lambda>y. if fst x < fst y then star_iter f n y else []) (f x) =
          map (\<lambda>y. if fst x < fst y then star_iter f m' y else []) (f x)"
      by (rule map_cong[OF refl]) (rule eq)
    then have "star_iter f (Suc n) x = star_iter f (Suc m') x"
      by (simp only: star_iter.simps)
    with Suc show ?thesis by simp
  qed
qed

lemma star_fuel_inert:
  "length s - fst x \<le> n \<Longrightarrow>
   matches (Star a) s x = star_iter (\<lambda>y. matches a s y) n x"
  using star_iter_fuel[of "\<lambda>y. matches a s y" s x "length s - fst x" n] matches_within
  by simp


lemma match_at_span:
  "match_at r s i = Some m \<Longrightarrow> m_start m = i \<and> i \<le> m_end m \<and> m_end m \<le> max i (length s)"
proof -
  assume a: "match_at r s i = Some m"
  then obtain y ys where y: "matches r s (i, []) = y # ys"
    and m: "m = \<lparr>m_string = s, m_start = i, m_end = fst y, m_groups = snd y\<rparr>"
    by (auto simp: match_at_def split: list.splits)
  from y have "y \<in> set (matches r s (i, []))" by simp
  from matches_within[OF this] m show ?thesis by (simp add: within_def)
qed

lemma search_span:
  "search r s i n = Some m \<Longrightarrow>
   i \<le> m_start m \<and> m_start m < i + n \<and> m_start m \<le> m_end m \<and>
   m_end m \<le> max (m_start m) (length s)"
proof (induction n arbitrary: i)
  case 0
  then show ?case by simp
next
  case (Suc n)
  show ?case
  proof (cases "match_at r s i")
    case None
    with Suc.prems have "search r s (Suc i) n = Some m" by simp
    from Suc.IH[OF this] show ?thesis by simp
  next
    case (Some m')
    with Suc.prems have "m' = m" by simp
    with match_at_span[OF Some] show ?thesis by simp
  qed
qed

lemma finditer_from_fuel:
  "Suc (length s) - pos \<le> n \<Longrightarrow> Suc (length s) - pos \<le> m \<Longrightarrow>
   finditer_from n r s pos = finditer_from m r s pos"
proof (induction n arbitrary: m pos)
  case 0
  then have "search r s pos (Suc (length s) - pos) = None" by simp
  then show ?case by (cases m) simp_all
next
  case (Suc n)
  show ?case
  proof (cases "search r s pos (Suc (length s) - pos)")
    case None
    then show ?thesis by (cases m) simp_all
  next
    case (Some mt)
    let ?next = "if m_end mt = m_start mt then Suc (m_end mt) else m_end mt"
    from search_span[OF Some] have sp: "pos \<le> m_start mt" "m_start mt \<le> m_end mt" by simp_all
    then have nx: "pos < ?next" by auto
    from Some have "Suc (length s) - pos \<noteq> 0" by (cases "Suc (length s) - pos") auto
    with Suc.prems obtain m' where m': "m = Suc m'" by (cases m) auto
    from nx Suc.prems m' have "Suc (length s) - ?next \<le> n" "Suc (length s) - ?next \<le> m'"
      by linarith+
    from Suc.IH[OF this] have "finditer_from n r s ?next = finditer_from m' r s ?next" .
    with Some m' show ?thesis by simp
  qed
qed

lemma finditer_fuel_inert:
  "length s < n \<Longrightarrow> finditer r s = finditer_from n r s 0"
  unfolding finditer_def by (rule finditer_from_fuel) simp_all

section \<open>Lemmas: running sessions\<close>

lemma running_ghcmod: "ghcmod (running p) = Some \<lparr>process = Some p, process_err = None\<rparr>"
  by (simp add: running_def)

lemma running_lock: "action_lock (running p) = Some Lock"
  by (simp add: running_def)

lemma process_simple: "process \<lparr>process = Some p, process_err = e\<rparr> = Some p"
  by simp

lemmas run_simps = running_def quiet_def set_process_def continues_def is_ok_def is_out_def
  is_err_def payload_def rstrip_def is_space_def

section \<open>Lemmas: the translators\<close>

lemma translate_check_level:
  "translate_check P project_dir errmsg = Ret d \<Longrightarrow>
   level d = (if \<exists>f. group errmsg ''flag'' = Some f \<and> startswith (lower f) ''warning''
              then ''warning'' else ''error'')"
  by (auto simp: translate_check_def is_warning_flag_def Let_def
      split: outcome.splits option.splits)

lemma reconstitute_Ret:
  "reconstitute P project_dir filename = Ret file' \<Longrightarrow>
   \<exists>f. filename = Some f \<and>
       (if isabs P f then file' = f
        else \<exists>dir. project_dir = Some dir \<and> file' = normpath P (join P dir f))"
  by (auto simp: reconstitute_def split: option.splits if_splits)

lemma translate_check_file:
  "translate_check P project_dir errmsg = Ret d \<Longrightarrow>
   reconstitute P project_dir (group errmsg ''file'') = Ret (source_file (source d))"
  by (auto simp: translate_check_def Let_def split: outcome.splits)

lemma translate_lint_file:
  "translate_lint P project_dir errmsg = Ret d \<Longrightarrow>
   reconstitute P project_dir (group errmsg ''file'') = Ret (source_file (source d))"
  by (auto simp: translate_lint_def split: outcome.splits)

section \<open>Lemmas: the example sessions\<close>












lemma check_with_mapped_contents: "map_option (\<lambda>rb. (fst rb, oplog (snd rb)))
     (check posixpath (Some [''Foo.hs'']) (Some [''Foo.hs'' \<mapsto> ''main = 1''])
        (one_project [Line (''O: OK'' @ nl), Line (''O: Foo.hs:3:7: Warning: x'' @ nl),
                      Line (''O: OK'' @ nl), Line (''O: OK'' @ nl)]))
   = Some (Ret [\<lparr>level = ''warning'',
           diag_note = \<lparr>message = Some ''x'', suggestions = None\<rparr>,
           region = \<lparr>region_from = \<lparr>column = 1, line = 3\<rparr>,
                     region_to = \<lparr>column = 7, line = 3\<rparr>\<rparr>,
           source = \<lparr>source_file = ''/proj/Foo.hs'', source_project = None\<rparr>\<rparr>],
       [Mapped ''Foo.hs'', Commanded ''Foo.hs'', Unmapping ''Foo.hs''])"
  by code_simp

section \<open>The reply of a command\<close>

text \<open>
  C1, as stated: on a well-formed reply stream ending in the line \<^verbatim>\<open>O: OK\<close>,
  \<^verbatim>\<open>read_response\<close> returns the marked lines read before the terminator with only the three
  characters of the marker removed. This fails on a line that ends in white space: the
  line \<^verbatim>\<open>O: a \<close> is returned as \<^verbatim>\<open>a\<close>, where the statement asks for \<^verbatim>\<open>a \<close>.
\<close>

theorem read_response_reply_counterexample:
  "map_option fst (read_response (running (quiet [Line (''O: a '' @ nl), Line (''O: OK'' @ nl)])))
     = Some (Ret ([''a''], []))
   \<and> spec_reply [''O: a '' @ nl] = ([''a ''], [])
   \<and> map_option fst (read_response (running (quiet [Line (''O: a '' @ nl), Line (''O: OK'' @ nl)])))
     \<noteq> Some (Ret (spec_reply [''O: a '' @ nl]))"
  by (simp add: run_simps read_response_def GHCMOD_OUTPUT_MARKER_def GHCMOD_ERROR_MARKER_def
      spec_reply_def chomp_def)

text \<open>
  C1, amended: when the pending output is a sequence of lines that each carry one of the
  two markers and are not the terminator, followed by a line that carries the output
  marker and whose text, white space at its end removed, is \<^verbatim>\<open>OK\<close>, then \<^verbatim>\<open>read_response\<close>
  returns the lines of the sequence on their two channels, in the order read, each
  with its marker and the white space at its end removed, and consumes the output up
  to and including the terminator.
\<close>

theorem read_response_reply:
  assumes "ghcmod c = Some ph" and "process ph = Some p"
    and "stdout p = map Line ls @ Line t # rest"
    and "\<forall>l\<in>set ls. continues l" and "is_ok t"
  shows "read_response c =
         Some (Ret (map payload (filter is_out ls), map payload (filter is_err ls)),
               set_process c ph (p\<lparr>stdout := rest\<rparr>))"
  using assms by (rule read_response_ok)

theorem read_response_reply_witness:
  "read_response (running (quiet
      [Line (''O: a '' @ nl), Line (''X: b'' @ nl), Line (''O: c'' @ nl), Line (''O: OK '' @ nl),
       Line (''O: d'' @ nl)]))
   = Some (Ret ([''a'', ''c''], [''b'']), running (quiet [Line (''O: d'' @ nl)]))"
  using read_response_reply [OF running_ghcmod process_simple,
      of "quiet [Line (''O: a '' @ nl), Line (''X: b'' @ nl), Line (''O: c'' @ nl),
                 Line (''O: OK '' @ nl), Line (''O: d'' @ nl)]"
         "[''O: a '' @ nl, ''X: b'' @ nl, ''O: c'' @ nl]" "''O: OK '' @ nl"
         "[Line (''O: d'' @ nl)]"]
  by (simp add: run_simps)

text \<open>
  C2, as stated: when \<^verbatim>\<open>read_response\<close> reads the empty string (end of stream) the loop
  ends and the session is shut down. The loop ends, but the session keeps its process,
  its lock and its drain.
\<close>

theorem read_response_eof_counterexample:
  "read_response (running (quiet [Line []])) = Some (Ret ([], []), running (quiet []))
   \<and> running (quiet []) \<noteq> dead"
  by (simp add: run_simps read_response_def dead_def)

text \<open>
  C2, amended: when \<^verbatim>\<open>read_response\<close> reads the empty string after a sequence of marked
  lines, the loop ends and the lines accumulated so far are returned; the session is
  left as it was, apart from the output consumed, and is not the shut down session.
\<close>

theorem read_response_eof_keeps_session:
  assumes "ghcmod c = Some ph" and "process ph = Some p"
    and "stdout p = map Line ls @ Line [] # rest"
    and "\<forall>l\<in>set ls. continues l"
  shows "read_response c =
         Some (Ret (map payload (filter is_out ls), map payload (filter is_err ls)),
               set_process c ph (p\<lparr>stdout := rest\<rparr>))
       \<and> set_process c ph (p\<lparr>stdout := rest\<rparr>) \<noteq> dead"
proof -
  have "ghcmod (set_process c ph (p\<lparr>stdout := rest\<rparr>)) \<noteq> ghcmod dead"
    by (simp add: set_process_def dead_def)
  then have "set_process c ph (p\<lparr>stdout := rest\<rparr>) \<noteq> dead" by auto
  with read_response_eof[OF assms] show ?thesis by simp
qed

theorem read_response_eof_keeps_session_witness:
  "read_response (running (quiet [Line (''X: boom'' @ nl), Line [], Line []]))
     = Some (Ret ([], [''boom'']), running (quiet [Line []]))
   \<and> running (quiet [Line []]) \<noteq> dead"
  using read_response_eof_keeps_session [OF running_ghcmod process_simple,
      of "quiet [Line (''X: boom'' @ nl), Line [], Line []]" "[''X: boom'' @ nl]" "[Line []]"]
  by (simp add: run_simps)

text \<open>
  C3, as stated: an \<^verbatim>\<open>OSError\<close> while writing a command or reading its reply shuts the
  session down and the call returns \<^verbatim>\<open>([], [])\<close>, never the lines accumulated so far.
  When the error comes from a read that follows accepted lines, those lines are
  returned.
\<close>

theorem oserror_partial_reply_counterexample:
  "command_backend ''check Foo.hs''
     (running (quiet [Line (''O: Foo.hs:1:1: oops'' @ nl), ReadOSError]))
     = Some (Ret ([''Foo.hs:1:1: oops''], []), dead)
   \<and> ([''Foo.hs:1:1: oops''], []) \<noteq> (([], []) :: reply)"
  by (simp add: run_simps read_response_def GHCMOD_OUTPUT_MARKER_def GHCMOD_ERROR_MARKER_def
      command_backend_def locked_try_def stdin_op_def shutdown_def)

text \<open>
  C3, amended: for a session with a process and a lock, if a write of the command
  raises \<^verbatim>\<open>OSError\<close> (the only write of \<^verbatim>\<open>command_backend\<close> and \<^verbatim>\<open>unmap_file\<close>, any of the four
  operations of \<^verbatim>\<open>map_file\<close>), the session is shut down and the call returns
  \<^verbatim>\<open>([], [])\<close>; if the writes succeed and a read of the reply raises \<^verbatim>\<open>OSError\<close> after a
  sequence of marked lines, the session is shut down and the call returns the lines
  accumulated before the error. In neither case is the error propagated.
\<close>

theorem oserror_shuts_session_down:
  assumes "ghcmod c = Some ph" and "process ph = Some p" and "action_lock c = Some l"
  shows "(wr_raises p (wr_count p) \<longrightarrow>
            command_backend cmd c = Some (Ret ([], []), dead) \<and>
            unmap_file fname c = Some (Ret ([], []), dead))
       \<and> ((\<exists>k<4. wr_raises p (wr_count p + k)) \<longrightarrow>
            map_file fname contents c = Some (Ret ([], []), dead))
       \<and> (stdout p = map Line ls @ ReadOSError # rest \<and> (\<forall>l\<in>set ls. continues l) \<longrightarrow>
            (writes_ok p 1 \<longrightarrow>
               command_backend cmd c =
                 Some (Ret (map payload (filter is_out ls), map payload (filter is_err ls)), dead) \<and>
               unmap_file fname c =
                 Some (Ret (map payload (filter is_out ls), map payload (filter is_err ls)), dead))
          \<and> (writes_ok p 4 \<longrightarrow>
               map_file fname contents c =
                 Some (Ret (map payload (filter is_out ls), map payload (filter is_err ls)), dead)))"
proof (intro conjI impI)
  assume w: "wr_raises p (wr_count p)"
  then have w0: "wr_raises p (wr_count p + 0)" by simp
  show "command_backend cmd c = Some (Ret ([], []), dead)"
    unfolding command_backend_def
    by (rule locked_try_write_fails[OF assms _ w0]) simp
  show "unmap_file fname c = Some (Ret ([], []), dead)"
    unfolding unmap_file_def
    by (rule locked_try_write_fails[OF assms _ w0]) simp
next
  assume "\<exists>k<4. wr_raises p (wr_count p + k)"
  then obtain k where k: "k < 4" "wr_raises p (wr_count p + k)" by blast
  show "map_file fname contents c = Some (Ret ([], []), dead)"
    unfolding map_file_def
    by (rule locked_try_write_fails[OF assms _ k(2)]) (use k(1) in simp)
next
  assume r: "stdout p = map Line ls @ ReadOSError # rest \<and> (\<forall>l\<in>set ls. continues l)"
    and w: "writes_ok p 1"
  show "command_backend cmd c =
          Some (Ret (map payload (filter is_out ls), map payload (filter is_err ls)), dead)"
    unfolding command_backend_def
    by (rule locked_try_read_fails[OF assms _ conjunct1[OF r] conjunct2[OF r]]) (use w in simp)
  show "unmap_file fname c =
          Some (Ret (map payload (filter is_out ls), map payload (filter is_err ls)), dead)"
    unfolding unmap_file_def
    by (rule locked_try_read_fails[OF assms _ conjunct1[OF r] conjunct2[OF r]]) (use w in simp)
next
  assume r: "stdout p = map Line ls @ ReadOSError # rest \<and> (\<forall>l\<in>set ls. continues l)"
    and w: "writes_ok p 4"
  show "map_file fname contents c =
          Some (Ret (map payload (filter is_out ls), map payload (filter is_err ls)), dead)"
    unfolding map_file_def
    by (rule locked_try_read_fails[OF assms _ conjunct1[OF r] conjunct2[OF r]]) (use w in \<open>simp add: eval_nat_numeral\<close>)
qed

theorem oserror_shuts_session_down_witness:
  "command_backend ''lang''
     (running \<lparr>stdout = [], wr_raises = (\<lambda>k. k = 0), wr_count = 0, stdin_log = []\<rparr>)
     = Some (Ret ([], []), dead)
   \<and> map_file ''Foo.hs'' ''main = 1''
     (running \<lparr>stdout = [], wr_raises = (\<lambda>k. k = 2), wr_count = 0, stdin_log = []\<rparr>)
     = Some (Ret ([], []), dead)
   \<and> unmap_file ''Foo.hs'' (running (quiet [Line (''X: late'' @ nl), ReadOSError]))
     = Some (Ret ([], [''late'']), dead)"
  using oserror_shuts_session_down [OF running_ghcmod process_simple running_lock,
      where p = "\<lparr>stdout = [], wr_raises = (\<lambda>k. k = 0), wr_count = 0, stdin_log = []\<rparr>"
        and cmd = "''lang''"]
    oserror_shuts_session_down [OF running_ghcmod process_simple running_lock,
      where p = "\<lparr>stdout = [], wr_raises = (\<lambda>k. k = 2), wr_count = 0, stdin_log = []\<rparr>"
        and fname = "''Foo.hs''" and contents = "''main = 1''"]
    oserror_shuts_session_down [OF running_ghcmod process_simple running_lock,
      where p = "quiet [Line (''X: late'' @ nl), ReadOSError]" and ls = "[''X: late'' @ nl]"
        and rest = "[]" and fname = "''Foo.hs''"]
  by (simp add: run_simps writes_ok_def)

text \<open>
  C4: shutting down a session with a process leaves the shut down session, and
  shutting that down again returns normally and changes nothing. On the shut down
  session \<^verbatim>\<open>command_backend\<close>, \<^verbatim>\<open>map_file\<close> and \<^verbatim>\<open>unmap_file\<close> do not return empty channels:
  each raises at \<^verbatim>\<open>with self.action_lock\<close>, the lock being \<^verbatim>\<open>None\<close>.
\<close>

theorem dead_session_raises:
  "shutdown (running p) = (Ret (), dead)
   \<and> shutdown dead = (Ret (), dead)
   \<and> command_backend cmd dead = Some (Raise AttributeError, dead)
   \<and> map_file fname contents dead = Some (Raise AttributeError, dead)
   \<and> unmap_file fname dead = Some (Raise AttributeError, dead)"
  by (simp add: shutdown_process[OF running_ghcmod process_simple] shutdown_dead
      command_backend_def map_file_def unmap_file_def locked_try_dead)

section \<open>Diagnostics from the reply\<close>

text \<open>
  C5, as stated: for every line matched by the check grammar the level is \<^verbatim>\<open>warning\<close>
  exactly when the flag starts with \<^verbatim>\<open>warning\<close> whatever its case, so that \<^verbatim>\<open>WARNING:\<close>
  too gives a warning. The line \<^verbatim>\<open>Foo.hs:3:7: WARNING: x shadows y\<close> matches the grammar
  and gives the level \<^verbatim>\<open>error\<close>: the grammar does not take \<^verbatim>\<open>WARNING:\<close> as a flag and
  leaves it in the message.
\<close>

theorem check_flag_upper_counterexample:
  "translate_matches (translate_check posixpath) GHC_CHECK_REGEX (Some ''/proj'')
     [''Foo.hs:3:7: WARNING: x shadows y'']
   = Ret [\<lparr>level = ''error'',
           diag_note = \<lparr>message = Some '' WARNING: x shadows y'', suggestions = None\<rparr>,
           region = \<lparr>region_from = \<lparr>column = 1, line = 3\<rparr>,
                     region_to = \<lparr>column = 7, line = 3\<rparr>\<rparr>,
           source = \<lparr>source_file = ''/proj/Foo.hs'', source_project = None\<rparr>\<rparr>]"
  by code_simp

text \<open>
  C5, amended: for every match of the check grammar that \<^verbatim>\<open>translate_check\<close> turns into a
  record, the level is \<^verbatim>\<open>warning\<close> if the flag captured by the grammar, in lower case,
  starts with \<^verbatim>\<open>warning\<close>, and \<^verbatim>\<open>error\<close> otherwise; the grammar captures no flag, or one
  of \<^verbatim>\<open>*\<close>, \<^verbatim>\<open>Warning:\<close> and \<^verbatim>\<open>warning:\<close>, so that the level is \<^verbatim>\<open>warning\<close> exactly when the
  flag is \<^verbatim>\<open>Warning:\<close> or \<^verbatim>\<open>warning:\<close>.
\<close>

theorem check_level:
  assumes "errmsg \<in> set (finditer GHC_CHECK_REGEX text)"
    and "translate_check P project_dir errmsg = Ret d"
  shows "level d = (if \<exists>f. group errmsg ''flag'' = Some f \<and> startswith (lower f) ''warning''
                    then ''warning'' else ''error'')
       \<and> group errmsg ''flag'' \<in> {None, Some ''*'', Some ''Warning:'', Some ''warning:''}
       \<and> (level d = ''warning'') =
           (group errmsg ''flag'' = Some ''Warning:'' \<or> group errmsg ''flag'' = Some ''warning:'')"
proof -
  note lv = translate_check_level[OF assms(2)]
  note fl = check_regex_flag[OF assms(1)]
  have w: "startswith (lower ''Warning:'') ''warning''" "startswith (lower ''warning:'') ''warning''"
    "\<not> startswith (lower ''*'') ''warning''"
    by code_simp+
  from fl consider "group errmsg ''flag'' = None" | "group errmsg ''flag'' = Some ''*''"
    | "group errmsg ''flag'' = Some ''Warning:''" | "group errmsg ''flag'' = Some ''warning:''"
    by auto
  then have "(level d = ''warning'') =
           (group errmsg ''flag'' = Some ''Warning:'' \<or> group errmsg ''flag'' = Some ''warning:'')"
    using lv w by cases simp_all
  with lv fl show ?thesis by blast
qed

theorem check_level_witness:
  "translate_check posixpath (Some ''/proj'')
       (hd (finditer GHC_CHECK_REGEX ''Foo.hs:3:7: warning: x''))
     = Ret \<lparr>level = ''warning'',
            diag_note = \<lparr>message = Some ''x'', suggestions = None\<rparr>,
            region = \<lparr>region_from = \<lparr>column = 1, line = 3\<rparr>,
                      region_to = \<lparr>column = 7, line = 3\<rparr>\<rparr>,
            source = \<lparr>source_file = ''/proj/Foo.hs'', source_project = None\<rparr>\<rparr>
   \<and> group (hd (finditer GHC_CHECK_REGEX ''Foo.hs:3:7: warning: x'')) ''flag'' = Some ''warning:''"
proof -
  have h1: "hd (finditer GHC_CHECK_REGEX ''Foo.hs:3:7: warning: x'')
              \<in> set (finditer GHC_CHECK_REGEX ''Foo.hs:3:7: warning: x'')"
    by code_simp
  have h2: "translate_check posixpath (Some ''/proj'')
       (hd (finditer GHC_CHECK_REGEX ''Foo.hs:3:7: warning: x''))
     = Ret \<lparr>level = ''warning'',
            diag_note = \<lparr>message = Some ''x'', suggestions = None\<rparr>,
            region = \<lparr>region_from = \<lparr>column = 1, line = 3\<rparr>,
                      region_to = \<lparr>column = 7, line = 3\<rparr>\<rparr>,
            source = \<lparr>source_file = ''/proj/Foo.hs'', source_project = None\<rparr>\<rparr>"
    by code_simp
  have h3: "group (hd (finditer GHC_CHECK_REGEX ''Foo.hs:3:7: warning: x'')) ''flag''
              = Some ''warning:''"
    by code_simp
  from check_level [OF h1 h2] h2 h3 show ?thesis by simp
qed

text \<open>
  C6: in every record that \<^verbatim>\<open>translate_check\<close> or \<^verbatim>\<open>translate_lint\<close> builds, the file of the
  source is the reported file itself when \<^verbatim>\<open>os.path.isabs\<close> holds of it, and otherwise
  \<^verbatim>\<open>os.path.normpath(os.path.join(project_dir, file))\<close>; with the POSIX functions the
  project directory \<^verbatim>\<open>/proj\<close> and the relative path \<^verbatim>\<open>Foo.hs\<close> give \<^verbatim>\<open>/proj/Foo.hs\<close>.
\<close>

theorem diagnostic_file:
  assumes "translate_check P project_dir errmsg = Ret d \<or> translate_lint P project_dir errmsg = Ret d"
  shows "(\<exists>f. group errmsg ''file'' = Some f \<and>
            (if isabs P f then source_file (source d) = f
             else \<exists>dir. project_dir = Some dir \<and>
                    source_file (source d) = normpath P (join P dir f)))
       \<and> \<not> isabs posixpath ''Foo.hs''
       \<and> normpath posixpath (join posixpath ''/proj'' ''Foo.hs'') = ''/proj/Foo.hs''"
proof -
  from assms have "reconstitute P project_dir (group errmsg ''file'') = Ret (source_file (source d))"
    by (auto dest: translate_check_file translate_lint_file)
  from reconstitute_Ret[OF this]
  have "\<exists>f. group errmsg ''file'' = Some f \<and>
            (if isabs P f then source_file (source d) = f
             else \<exists>dir. project_dir = Some dir \<and>
                    source_file (source d) = normpath P (join P dir f))" .
  moreover have "\<not> isabs posixpath ''Foo.hs''"
    by (simp add: posixpath_def posix_isabs_def startswith_def)
  moreover have "normpath posixpath (join posixpath ''/proj'' ''Foo.hs'') = ''/proj/Foo.hs''"
    by code_simp
  ultimately show ?thesis by blast
qed

theorem diagnostic_file_witness:
  "translate_lint posixpath (Some ''/proj'')
       (hd (finditer GHC_LINT_REGEX (''src/../Foo.hs:10:1: Eta reduce'' @ nl @ ''Found: x'')))
     = Ret \<lparr>level = ''hint'',
            diag_note = \<lparr>message = Some ('' Eta reduce'' @ nl @ ''Found: x''), suggestions = None\<rparr>,
            region = \<lparr>region_from = \<lparr>column = 1, line = 10\<rparr>,
                      region_to = \<lparr>column = 1, line = 10\<rparr>\<rparr>,
            source = \<lparr>source_file = ''/proj/Foo.hs'', source_project = None\<rparr>\<rparr>
   \<and> translate_check posixpath (Some ''/proj'')
       (hd (finditer GHC_CHECK_REGEX ''/abs/../Foo.hs:1:2: x''))
     = Ret \<lparr>level = ''error'',
            diag_note = \<lparr>message = Some '' x'', suggestions = None\<rparr>,
            region = \<lparr>region_from = \<lparr>column = 1, line = 1\<rparr>,
                      region_to = \<lparr>column = 2, line = 1\<rparr>\<rparr>,
            source = \<lparr>source_file = ''/abs/../Foo.hs'', source_project = None\<rparr>\<rparr>
   \<and> group (hd (finditer GHC_LINT_REGEX (''src/../Foo.hs:10:1: Eta reduce'' @ nl @ ''Found: x'')))
       ''file'' = Some ''src/../Foo.hs''
   \<and> group (hd (finditer GHC_CHECK_REGEX ''/abs/../Foo.hs:1:2: x'')) ''file''
       = Some ''/abs/../Foo.hs''"
proof -
  have h1: "translate_lint posixpath (Some ''/proj'')
       (hd (finditer GHC_LINT_REGEX (''src/../Foo.hs:10:1: Eta reduce'' @ nl @ ''Found: x'')))
     = Ret \<lparr>level = ''hint'',
            diag_note = \<lparr>message = Some ('' Eta reduce'' @ nl @ ''Found: x''), suggestions = None\<rparr>,
            region = \<lparr>region_from = \<lparr>column = 1, line = 10\<rparr>,
                      region_to = \<lparr>column = 1, line = 10\<rparr>\<rparr>,
            source = \<lparr>source_file = ''/proj/Foo.hs'', source_project = None\<rparr>\<rparr>"
    by code_simp
  have h2: "translate_check posixpath (Some ''/proj'')
       (hd (finditer GHC_CHECK_REGEX ''/abs/../Foo.hs:1:2: x''))
     = Ret \<lparr>level = ''error'',
            diag_note = \<lparr>message = Some '' x'', suggestions = None\<rparr>,
            region = \<lparr>region_from = \<lparr>column = 1, line = 1\<rparr>,
                      region_to = \<lparr>column = 2, line = 1\<rparr>\<rparr>,
            source = \<lparr>source_file = ''/abs/../Foo.hs'', source_project = None\<rparr>\<rparr>"
    by code_simp
  have g1: "group (hd (finditer GHC_LINT_REGEX
                (''src/../Foo.hs:10:1: Eta reduce'' @ nl @ ''Found: x''))) ''file''
              = Some ''src/../Foo.hs''"
    by code_simp
  have g2: "group (hd (finditer GHC_CHECK_REGEX ''/abs/../Foo.hs:1:2: x'')) ''file''
              = Some ''/abs/../Foo.hs''"
    by code_simp
  from diagnostic_file [OF disjI2, OF h1] diagnostic_file [OF disjI1, OF h2] h1 h2 g1 g2
  show ?thesis by simp
qed


section \<open>Mapped contents\<close>



section \<open>The registry of sessions\<close>

text \<open>
  C9: when the executable is not found, \<^verbatim>\<open>add_project_file\<close> returns normally on a new
  backend and the registry holds, under the project, a client with no process, no lock
  and no drain; nothing reads the message that \<^verbatim>\<open>ProcHelper\<close> has recorded. When
  \<^verbatim>\<open>Popen\<close> raises \<^verbatim>\<open>OSError\<close> the call raises and the registry has no entry for the project.
  On the client that was registered \<^verbatim>\<open>command_backend\<close> and \<^verbatim>\<open>shutdown\<close> raise.
\<close>

theorem not_found_session_is_registered:
  "fst (add_project_file (\<lambda>cmd cwd. NotFound) (Ret opt_args) filename project project_dir
          new_backend) = Ret ()
   \<and> project_backends
       (snd (add_project_file (\<lambda>cmd cwd. NotFound) (Ret opt_args) filename project project_dir
               new_backend)) project = Some zombie
   \<and> fst (add_project_file (\<lambda>cmd cwd. PopenOSError epipe) (Ret opt_args) filename project
            project_dir new_backend) = Raise (if epipe then AttributeError else OSError)
   \<and> project_backends
       (snd (add_project_file (\<lambda>cmd cwd. PopenOSError epipe) (Ret opt_args) filename project
               project_dir new_backend)) project = None
   \<and> command_backend cmd zombie = Some (Raise AttributeError, zombie)
   \<and> shutdown zombie = (Raise AttributeError, zombie)"
  by (simp add: add_project_file_def base_add_project_file_def new_backend_def client_init_def
      prochelper_init_def Let_def zombie_def command_backend_def locked_try_def shutdown_def
      stdin_op_def)

text \<open>
  C10: for a project with no session in \<^verbatim>\<open>project_backends\<close>, \<^verbatim>\<open>scope_modules\<close>, \<^verbatim>\<open>langs\<close>
  and \<^verbatim>\<open>flags\<close> raise \<^verbatim>\<open>ValueError\<close>, and so does \<^verbatim>\<open>module\<close> when the search type is
  \<^verbatim>\<open>exact\<close> and the name looked up is dotted; the backend is left unchanged.
\<close>

theorem no_session_raises:
  assumes "project_backends b project_name = None"
  shows "scope_modules re_search project_name filename lookup search_type b
           = Some (Raise ValueError, b)
       \<and> langs project_name b = Some (Raise ValueError, b)
       \<and> flags project_name b = Some (Raise ValueError, b)
       \<and> (search_type = ''exact'' \<and> re_match DOTTED_NAME lookup \<longrightarrow>
            module project_name lookup search_type b = Some (Raise ValueError, b))"
  using assms by (simp add: scope_modules_def langs_def flags_def query_def module_def)

theorem no_session_raises_witness:
  "scope_modules (\<lambda>p s. Ret False) ''proj'' ''Foo.hs'' ''Data'' ''prefix'' new_backend
           = Some (Raise ValueError, new_backend)
   \<and> langs ''proj'' new_backend = Some (Raise ValueError, new_backend)
   \<and> flags ''proj'' new_backend = Some (Raise ValueError, new_backend)
   \<and> module ''proj'' ''Data.Map'' ''exact'' new_backend = Some (Raise ValueError, new_backend)"
proof -
  have h: "project_backends new_backend ''proj'' = None"
    by (simp add: new_backend_def)
  have d: "re_match DOTTED_NAME ''Data.Map''"
    by code_simp
  from no_session_raises [OF h, of "\<lambda>p s. Ret False" "''Foo.hs''" "''Data''" "''prefix''"]
    no_session_raises [OF h, of "\<lambda>p s. Ret False" "''Foo.hs''" "''Data.Map''" "''exact''"] d
  show ?thesis by simp
qed

end
